theory Spec2Isabelle
  imports Main
begin

section \<open>Byte slices\<close>

text \<open>
  A Go \<^verbatim>\<open>[]byte\<close> is a list of 8-bit characters; \<^verbatim>\<open>string(b)\<close> is the same list.
  The two quote characters of \<^verbatim>\<open>identifyEventType\<close> are \<open>CHR 0x22\<close> (double quote)
  and \<open>CHR 0x27\<close> (single quote); the zero value of a \<^verbatim>\<open>byte\<close> is \<open>CHR 0x00\<close>.
\<close>

type_synonym bytes = "char list"

datatype panic = SliceBoundsOutOfRange

text \<open>
  Go's slice expressions \<^verbatim>\<open>s[i:]\<close> and \<^verbatim>\<open>s[:j]\<close>. A bound outside \<open>0..len(s)\<close>
  is a run-time panic, which the model returns as a value. (For \<^verbatim>\<open>s[:j]\<close> Go
  allows \<open>j\<close> up to the capacity; the model is stricter and panics past the length.)
\<close>

definition sliceFrom :: "bytes \<Rightarrow> int \<Rightarrow> panic + bytes" where
  "sliceFrom s i =
     (if 0 \<le> i \<and> i \<le> int (length s) then Inr (drop (nat i) s)
      else Inl SliceBoundsOutOfRange)"

definition sliceTo :: "bytes \<Rightarrow> int \<Rightarrow> panic + bytes" where
  "sliceTo s j =
     (if 0 \<le> j \<and> j \<le> int (length s) then Inr (take (nat j) s)
      else Inl SliceBoundsOutOfRange)"

text \<open>\<^verbatim>\<open>bytes.IndexByte(b, c)\<close>: the index of the first \<open>c\<close> in \<open>b\<close>, or \<open>-1\<close>.\<close>

fun IndexByte :: "bytes \<Rightarrow> char \<Rightarrow> int" where
  "IndexByte [] c = - 1"
| "IndexByte (x # xs) c =
     (if x = c then 0
      else (let r = IndexByte xs c in if r = - 1 then - 1 else r + 1))"

section \<open>Event-kind classification\<close>

text \<open>
  The \<^verbatim>\<open>for i, r := range body\<close> loop of \<^verbatim>\<open>identifyEventType\<close>: it stops at the
  first byte that is a quote character and yields its index and the byte; \<open>None\<close>
  when the loop runs to the end without a \<^verbatim>\<open>break\<close>.
\<close>

fun findQuote :: "bytes \<Rightarrow> int \<Rightarrow> (int \<times> char) option" where
  "findQuote [] i = None"
| "findQuote (r # rs) i =
     (if r = CHR 0x22 \<or> r = CHR 0x27 then Some (i, r) else findQuote rs (i + 1))"

text \<open>
  \<^verbatim>\<open>identifyEventType\<close>. \<^verbatim>\<open>quote\<close> and \<^verbatim>\<open>key\<close> keep their zero values (the zero byte
  and the nil slice) when no quote character is found. The result \<open>None\<close> is the
  nil slice of \<^verbatim>\<open>return nil\<close>.
\<close>

definition identifyEventType :: "bytes \<Rightarrow> panic + bytes option" where
  "identifyEventType body =
     (case (case findQuote body 0 of
              None \<Rightarrow> Inr (CHR 0x00, [])
            | Some (i, r) \<Rightarrow>
                (case sliceFrom body (i + 1) of
                   Inl p \<Rightarrow> Inl p
                 | Inr k \<Rightarrow> Inr (r, k)))
      of
        Inl p \<Rightarrow> Inl p
      | Inr (quote, k) \<Rightarrow>
          (let e = IndexByte k quote in
           if e = - 1 then Inr None
           else (case sliceTo k e of
                   Inl p \<Rightarrow> Inl p
                 | Inr tok \<Rightarrow> Inr (Some tok))))"

text \<open>\<^verbatim>\<open>string(eventType)\<close>: the nil slice converts to the empty string.\<close>

definition goString :: "bytes option \<Rightarrow> string" where
  "goString b = (case b of None \<Rightarrow> [] | Some s \<Rightarrow> s)"

definition errorEventType :: string where "errorEventType = ''error''"
definition metricsetEventType :: string where "metricsetEventType = ''metricset''"
definition spanEventType :: string where "spanEventType = ''span''"
definition transactionEventType :: string where "transactionEventType = ''transaction''"
definition rumv3ErrorEventType :: string where "rumv3ErrorEventType = ''e''"
definition rumv3TransactionEventType :: string where "rumv3TransactionEventType = ''x''"

definition knownEventTypes :: "string set" where
  "knownEventTypes =
     {errorEventType, metricsetEventType, spanEventType, transactionEventType,
      rumv3ErrorEventType, rumv3TransactionEventType}"

section \<open>Errors\<close>

text \<open>
  \<^verbatim>\<open>InvalidInputError\<close>: a single malformed document or malformed metadata, with the
  offending raw line and the over-size flag.
\<close>

record InvalidInputError =
  TooLarge :: bool
  Message :: string
  Document :: string

text \<open>
  The error values the stream processor tells apart:
  \<^item> \<open>EOF\<close> is \<^verbatim>\<open>io.EOF\<close>;
  \<^item> \<open>ErrLineTooLong\<close> is the sentinel \<^verbatim>\<open>decoder.ErrLineTooLong\<close>;
  \<^item> \<open>JSONDecodeError\<close> is a value of type \<^verbatim>\<open>decoder.JSONDecodeError\<close>;
  \<^item> \<open>DecoderError e\<close> is a \<^verbatim>\<open>modeldecoder.DecoderError\<close> whose \<^verbatim>\<open>Unwrap()\<close> is \<open>e\<close>;
  \<^item> \<open>InvalidInput\<close> is a \<^verbatim>\<open>*InvalidInputError\<close>;
  \<^item> \<open>Wrapped e msg\<close> is \<^verbatim>\<open>errors.Wrap(e, msg)\<close>;
  \<^item> \<open>ErrUnrecognizedObject\<close> is the package variable \<^verbatim>\<open>errUnrecognizedObject\<close>;
  \<^item> \<open>ErrOther\<close> is any other error (an I/O failure of the byte source, a
    validation failure), identified by a text.
\<close>

datatype error =
    EOF
  | ErrLineTooLong
  | JSONDecodeError string
  | DecoderError error
  | InvalidInput InvalidInputError
  | Wrapped error string
  | ErrUnrecognizedObject
  | ErrOther string

text \<open>
  The method \<^verbatim>\<open>Error()\<close>. The text of \<^verbatim>\<open>errUnrecognizedObject\<close> and the wrapping of
  \<^verbatim>\<open>errors.Wrap\<close> (\<^verbatim>\<open>msg + ": " + cause\<close>) come from the source file; \<^verbatim>\<open>io.EOF\<close>
  prints as \<^verbatim>\<open>EOF\<close>. The texts of the error types declared outside the source file
  are the parameter \<open>ext\<close>.
\<close>

fun Error :: "(error \<Rightarrow> string) \<Rightarrow> error \<Rightarrow> string" where
  "Error ext EOF = ''EOF''"
| "Error ext ErrUnrecognizedObject = ''did not recognize object type''"
| "Error ext (Wrapped e msg) = msg @ '': '' @ Error ext e"
| "Error ext e = ext e"

text \<open>
  \<^verbatim>\<open>errors.Is(e, decoder.ErrLineTooLong)\<close> and \<^verbatim>\<open>errors.As(err, &invalidInput)\<close> walk
  the chain of \<^verbatim>\<open>Unwrap()\<close>.
\<close>

fun isErrLineTooLong :: "error \<Rightarrow> bool" where
  "isErrLineTooLong ErrLineTooLong = True"
| "isErrLineTooLong (DecoderError e) = isErrLineTooLong e"
| "isErrLineTooLong (Wrapped e msg) = isErrLineTooLong e"
| "isErrLineTooLong e = False"

fun asInvalidInput :: "error \<Rightarrow> InvalidInputError option" where
  "asInvalidInput (InvalidInput i) = Some i"
| "asInvalidInput (DecoderError e) = asInvalidInput e"
| "asInvalidInput (Wrapped e msg) = asInvalidInput e"
| "asInvalidInput e = None"

section \<open>The stream reader\<close>

text \<open>
  Modelled from the spec: \<^verbatim>\<open>decoder.NDJSONStreamDecoder\<close> is not in the source files.
  Per the spec, \<^verbatim>\<open>ReadAhead()\<close> returns the next line's raw bytes, or signals EOF, or
  fails (an over-size line, a failure of the byte source); \<^verbatim>\<open>LatestLine()\<close> returns the
  most recently read raw bytes; \<^verbatim>\<open>IsEOF()\<close> is a pure predicate on the EOF flag.
  The byte source is the list of the outcomes its successive reads will have, each
  the line's bytes with the error returned beside them; a read past the last
  outcome is the end of the input.
\<close>

record streamReader =
  pending :: "(bytes \<times> error option) list"
  isEOF :: bool
  latestLine :: bytes

definition ReadAhead :: "streamReader \<Rightarrow> bytes \<times> error option \<times> streamReader" where
  "ReadAhead sr =
     (case pending sr of
        [] \<Rightarrow> ([], Some EOF, sr\<lparr>isEOF := True, latestLine := []\<rparr>)
      | (line, err) # rest \<Rightarrow>
          (line, err, \<lparr>pending = rest, isEOF = (err = Some EOF), latestLine = line\<rparr>))"

definition IsEOF :: "streamReader \<Rightarrow> bool" where
  "IsEOF sr = isEOF sr"

definition LatestLine :: "streamReader \<Rightarrow> bytes" where
  "LatestLine sr = latestLine sr"

text \<open>
  \<^verbatim>\<open>getStreamReader\<close>: a reader (new, or a pooled one after \<^verbatim>\<open>Reset\<close>) bound to the byte
  source \<open>r\<close>, with nothing read yet.
\<close>

definition getStreamReader :: "(bytes \<times> error option) list \<Rightarrow> streamReader" where
  "getStreamReader r = \<lparr>pending = r, isEOF = False, latestLine = []\<rparr>"

text \<open>\<^verbatim>\<open>wrapError\<close>. The receiver is read only for its latest line.\<close>

definition wrapError :: "(error \<Rightarrow> string) \<Rightarrow> streamReader \<Rightarrow> error option \<Rightarrow> error option" where
  "wrapError ext sr err =
     (case err of
        None \<Rightarrow> None
      | Some (JSONDecodeError t) \<Rightarrow>
          Some (InvalidInput \<lparr>TooLarge = False, Message = Error ext (JSONDecodeError t),
                               Document = LatestLine sr\<rparr>)
      | Some e0 \<Rightarrow>
          (let e = (case e0 of DecoderError u \<Rightarrow> u | _ \<Rightarrow> e0) in
           if isErrLineTooLong e
           then Some (InvalidInput \<lparr>TooLarge = True,
                                     Message = ''event exceeded the permitted size.'',
                                     Document = LatestLine sr\<rparr>)
           else Some e0))"

section \<open>The result of a stream\<close>

text \<open>
  Modelled from the spec: the type \<^verbatim>\<open>Result\<close> with \<^verbatim>\<open>LimitedAdd\<close> and \<^verbatim>\<open>AddAccepted\<close> is
  not in the source files. Per the spec it is a running accepted-event counter plus
  an ordered, capped list of per-document errors: once the list is full, further
  errors are dropped. The cap is the parameter \<open>limit\<close>.
\<close>

record Result =
  Accepted :: int
  Errors :: "error list"

definition LimitedAdd :: "nat \<Rightarrow> error \<Rightarrow> Result \<Rightarrow> Result" where
  "LimitedAdd limit err r =
     (if length (Errors r) < limit then r\<lparr>Errors := Errors r @ [err]\<rparr> else r)"

definition AddAccepted :: "int \<Rightarrow> Result \<Rightarrow> Result" where
  "AddAccepted ct r = r\<lparr>Accepted := Accepted r + ct\<rparr>"

section \<open>Events and their label maps\<close>

text \<open>
  Modelled from the spec: \<^verbatim>\<open>model.APMEvent\<close> and the \<^verbatim>\<open>Clone\<close> method of its label maps
  are not in the source files. Go maps are references, so an event holds the
  address of its \<^verbatim>\<open>Labels\<close> and of its \<^verbatim>\<open>NumericLabels\<close> map (\<open>None\<close> is the nil map),
  and the maps live in a store: a list of maps, the address being the position.
  Every other field of the event is the component \<open>otherFields\<close>. \<^verbatim>\<open>Clone\<close> allocates a
  new map holding the entries of the old one.
\<close>

type_synonym 'v store = "(string \<rightharpoonup> 'v) list"

record 'x APMEvent =
  Labels :: "nat option"
  NumericLabels :: "nat option"
  otherFields :: 'x

definition mapAt :: "'v store \<Rightarrow> nat \<Rightarrow> (string \<rightharpoonup> 'v)" where
  "mapAt h a = (if a < length h then h ! a else Map.empty)"

definition Clone :: "'v store \<Rightarrow> nat \<Rightarrow> nat \<times> 'v store" where
  "Clone h a = (length h, h @ [mapAt h a])"

text \<open>\<^verbatim>\<open>copyEvent\<close>: a shallow copy of the event with both label maps cloned.\<close>

definition copyEvent :: "'v store \<Rightarrow> 'x APMEvent \<Rightarrow> 'x APMEvent \<times> 'v store" where
  "copyEvent h e =
     (case (case Labels e of
              None \<Rightarrow> (e, h)
            | Some a \<Rightarrow> (case Clone h a of (a', h') \<Rightarrow> (e\<lparr>Labels := Some a'\<rparr>, h')))
      of (out, h1) \<Rightarrow>
        (case NumericLabels out of
           None \<Rightarrow> (out, h1)
         | Some a \<Rightarrow> (case Clone h1 a of (a', h2) \<Rightarrow> (out\<lparr>NumericLabels := Some a'\<rparr>, h2))))"

section \<open>The processor and its collaborators\<close>

text \<open>
  The decoders of the packages \<^verbatim>\<open>modeldecoder/v2\<close> and \<^verbatim>\<open>modeldecoder/rumv3\<close> are not
  in the source files; they are parameters. A per-kind decoder is given the
  reader (whose latest line is the document), the base event of the document and
  the store; it returns the events it appends to the batch, its error, and the
  store. The metadata decoder reads from the reader and updates the base event.
\<close>

type_synonym ('x, 'v) decodeFunc =
  "streamReader \<Rightarrow> 'x APMEvent \<Rightarrow> 'v store \<Rightarrow> 'x APMEvent list \<times> error option \<times> 'v store"

type_synonym ('x, 'v) decodeMetadataFunc =
  "streamReader \<Rightarrow> 'x APMEvent \<Rightarrow> 'v store
     \<Rightarrow> error option \<times> streamReader \<times> 'x APMEvent \<times> 'v store"

record ('x, 'v) Processor =
  decodeMetadata :: "('x, 'v) decodeMetadataFunc"
  v2DecodeNestedError :: "('x, 'v) decodeFunc"
  v2DecodeNestedMetricset :: "('x, 'v) decodeFunc"
  v2DecodeNestedSpan :: "('x, 'v) decodeFunc"
  v2DecodeNestedTransaction :: "('x, 'v) decodeFunc"
  rumv3DecodeNestedError :: "('x, 'v) decodeFunc"
  rumv3DecodeNestedTransaction :: "('x, 'v) decodeFunc"
  errorsLimit :: nat
  errorText :: "error \<Rightarrow> string"

text \<open>
  \<^verbatim>\<open>readMetadata\<close>. The type assertion on \<^verbatim>\<open>*InvalidInputError\<close> does not unwrap.
  \<^verbatim>\<open>wrapError\<close> of a non-nil error is never nil (lemma \<open>wrapError_Some\<close> below), so
  the case \<open>None\<close> of its result is never reached.
\<close>

definition readMetadata ::
  "('x, 'v) Processor \<Rightarrow> streamReader \<Rightarrow> 'x APMEvent \<Rightarrow> 'v store
     \<Rightarrow> error option \<times> streamReader \<times> 'x APMEvent \<times> 'v store" where
  "readMetadata p reader out h =
     (case decodeMetadata p reader out h of
        (err, reader', out', h') \<Rightarrow>
          (case err of
             None \<Rightarrow> (None, reader', out', h')
           | Some e0 \<Rightarrow>
               (case wrapError (errorText p) reader' (Some e0) of
                  None \<Rightarrow> (None, reader', out', h')
                | Some EOF \<Rightarrow>
                    (Some (InvalidInput \<lparr>TooLarge = False,
                                          Message = ''EOF while reading metadata'',
                                          Document = LatestLine reader'\<rparr>),
                     reader', out', h')
                | Some (InvalidInput i) \<Rightarrow> (Some (InvalidInput i), reader', out', h')
                | Some e \<Rightarrow>
                    (Some (InvalidInput \<lparr>TooLarge = False,
                                          Message = Error (errorText p) e,
                                          Document = LatestLine reader'\<rparr>),
                     reader', out', h'))))"

section \<open>Reading a batch\<close>

text \<open>
  What \<^verbatim>\<open>readBatch\<close> reaches through its pointer arguments: the reader, the batch,
  the result, and the store of the label maps.
\<close>

record ('x, 'v) batchState =
  reader :: streamReader
  batch :: "'x APMEvent list"
  result :: Result
  heap :: "'v store"

text \<open>
  How a pass through the loop body ends: it goes on to the next iteration
  (\<^verbatim>\<open>continue\<close>, or the end of the body), or \<^verbatim>\<open>readBatch\<close> returns early with an
  error value, or a slice expression panics.
\<close>

datatype ('x, 'v) flow =
    Next "('x, 'v) batchState"
  | Return "error option" "('x, 'v) batchState"
  | Panicked panic

text \<open>The \<^verbatim>\<open>switch\<close> of \<^verbatim>\<open>readBatch\<close> on \<^verbatim>\<open>string(eventType)\<close>.\<close>

definition decodeSwitch ::
  "('x, 'v) Processor \<Rightarrow> string \<Rightarrow> ('x, 'v) decodeFunc" where
  "decodeSwitch p eventType rd input h =
     (if eventType = errorEventType then v2DecodeNestedError p rd input h
      else if eventType = metricsetEventType then v2DecodeNestedMetricset p rd input h
      else if eventType = spanEventType then v2DecodeNestedSpan p rd input h
      else if eventType = transactionEventType then v2DecodeNestedTransaction p rd input h
      else if eventType = rumv3ErrorEventType then rumv3DecodeNestedError p rd input h
      else if eventType = rumv3TransactionEventType then rumv3DecodeNestedTransaction p rd input h
      else ([], Some (Wrapped ErrUnrecognizedObject eventType), h))"

text \<open>The body of the \<^verbatim>\<open>for\<close> loop of \<^verbatim>\<open>readBatch\<close>, one document.\<close>

definition readBatchIter ::
  "('x, 'v) Processor \<Rightarrow> 'x APMEvent \<Rightarrow> ('x, 'v) batchState \<Rightarrow> ('x, 'v) flow" where
  "readBatchIter p baseEvent s =
     (case ReadAhead (reader s) of
        (body, err, rd) \<Rightarrow>
          (let s1 = s\<lparr>reader := rd\<rparr> in
           if err \<noteq> None \<and> err \<noteq> Some EOF then
             (case wrapError (errorText p) rd err of
                None \<Rightarrow> Return None s1
              | Some e \<Rightarrow>
                  if asInvalidInput e \<noteq> None
                  then Next (s1\<lparr>result := LimitedAdd (errorsLimit p) e (result s1)\<rparr>)
                  else Return (Some e) s1)
           else if length body = 0 then Next s1
           else
             (case copyEvent (heap s1) baseEvent of
                (input, h1) \<Rightarrow>
                  (case identifyEventType body of
                     Inl pn \<Rightarrow> Panicked pn
                   | Inr eventType \<Rightarrow>
                       (case decodeSwitch p (goString eventType) rd input h1 of
                          (evs, derr, h2) \<Rightarrow>
                            (let s2 = s1\<lparr>batch := batch s1 @ evs, heap := h2\<rparr> in
                             (case derr of
                                None \<Rightarrow> Next s2
                              | Some e \<Rightarrow>
                                  (if e \<noteq> EOF
                                   then Next (s2\<lparr>result :=
                                          LimitedAdd (errorsLimit p)
                                            (InvalidInput \<lparr>TooLarge = False,
                                                            Message = Error (errorText p) e,
                                                            Document = LatestLine rd\<rparr>)
                                            (result s2)\<rparr>)
                                   else Next s2))))))))"

text \<open>
  The loop \<^verbatim>\<open>for i := 0; i < batchSize && !reader.IsEOF(); i++\<close>, from the value
  \<open>i\<close> of its counter on.
\<close>

function readBatchLoop ::
  "('x, 'v) Processor \<Rightarrow> 'x APMEvent \<Rightarrow> int \<Rightarrow> int \<Rightarrow> ('x, 'v) batchState \<Rightarrow> ('x, 'v) flow" where
  "readBatchLoop p baseEvent batchSize i s =
     (if i < batchSize \<and> \<not> IsEOF (reader s) then
        (case readBatchIter p baseEvent s of
           Next s' \<Rightarrow> readBatchLoop p baseEvent batchSize (i + 1) s'
         | Return err s' \<Rightarrow> Return err s'
         | Panicked pn \<Rightarrow> Panicked pn)
      else Next s)"
  by pat_completeness auto
termination
  by (relation "measure (\<lambda>(p, baseEvent, batchSize, i, s). nat (batchSize - i))") auto

declare readBatchLoop.simps [simp del]

text \<open>
  \<^verbatim>\<open>readBatch\<close>: the number of events read, the error, and the state it leaves.
\<close>

definition readBatch ::
  "('x, 'v) Processor \<Rightarrow> 'x APMEvent \<Rightarrow> int \<Rightarrow> ('x, 'v) batchState
     \<Rightarrow> panic + (int \<times> error option \<times> ('x, 'v) batchState)" where
  "readBatch p baseEvent batchSize s =
     (let origLen = int (length (batch s)) in
      case readBatchLoop p baseEvent batchSize 0 s of
        Panicked pn \<Rightarrow> Inl pn
      | Return err s' \<Rightarrow> Inr (int (length (batch s')) - origLen, err, s')
      | Next s' \<Rightarrow>
          if IsEOF (reader s')
          then Inr (int (length (batch s')) - origLen, Some EOF, s')
          else Inr (int (length (batch s')) - origLen, None, s'))"

section \<open>Handling a stream\<close>

text \<open>
  The downstream \<^verbatim>\<open>model.BatchProcessor\<close> is a parameter: \<^verbatim>\<open>ProcessBatch\<close> is given
  its own state, the batch (by pointer, so it returns the batch as it leaves it)
  and the store, and returns its error.
\<close>

type_synonym ('x, 'v, 'q) batchProcessor =
  "'q \<Rightarrow> 'x APMEvent list \<Rightarrow> 'v store \<Rightarrow> error option \<times> 'x APMEvent list \<times> 'q \<times> 'v store"

text \<open>
  What a call of \<^verbatim>\<open>HandleStream\<close> leaves behind: the error it returns, the result,
  the state of the downstream processor and the store.
\<close>

record ('v, 'q) outcome =
  returned :: "error option"
  finalResult :: Result
  downstream :: 'q
  finalHeap :: "'v store"

text \<open>
  The \<^verbatim>\<open>for\<close> loop of \<^verbatim>\<open>HandleStream\<close>. It has no bound of its own, so a run that
  never leaves it is the value \<open>None\<close>.
\<close>

partial_function (option) handleLoop ::
  "('x, 'v) Processor \<Rightarrow> ('x, 'v, 'q) batchProcessor \<Rightarrow> 'x APMEvent \<Rightarrow> int
     \<Rightarrow> streamReader \<Rightarrow> Result \<Rightarrow> 'q \<Rightarrow> 'v store \<Rightarrow> (panic + ('v, 'q) outcome) option" where
  "handleLoop p ProcessBatch baseEvent batchSize sr res q h =
     (case readBatch p baseEvent batchSize \<lparr>reader = sr, batch = [], result = res, heap = h\<rparr> of
        Inl pn \<Rightarrow> Some (Inl pn)
      | Inr (n, readErr, s) \<Rightarrow>
          (case (if n > 0 then
                   (case ProcessBatch q (batch s) (heap s) of
                      (Some err, b', q', h') \<Rightarrow>
                        Inl \<lparr>returned = Some err, finalResult = result s,
                             downstream = q', finalHeap = h'\<rparr>
                    | (None, b', q', h') \<Rightarrow>
                        Inr (AddAccepted (int (length b')) (result s), q', h'))
                 else Inr (result s, q, heap s))
           of
             Inl out \<Rightarrow> Some (Inr out)
           | Inr (res', q', h') \<Rightarrow>
               if readErr = Some EOF then
                 Some (Inr \<lparr>returned = None, finalResult = res',
                            downstream = q', finalHeap = h'\<rparr>)
               else if readErr \<noteq> None then
                 Some (Inr \<lparr>returned = readErr, finalResult = res',
                            downstream = q', finalHeap = h'\<rparr>)
               else handleLoop p ProcessBatch baseEvent batchSize (reader s) res' q' h'))"

text \<open>
  How the \<^verbatim>\<open>select\<close> at the head of \<^verbatim>\<open>HandleStream\<close> ends: a slot of the semaphore
  was taken, or the context was done first and \<^verbatim>\<open>ctx.Err()\<close> is the given error.
\<close>

datatype admission = Admitted | Cancelled error

text \<open>
  \<^verbatim>\<open>HandleStream\<close>, for one call. The release of the reader and of the semaphore slot
  and the tracing span do not change what is returned and are left out.
\<close>

definition HandleStream ::
  "('x, 'v) Processor \<Rightarrow> admission \<Rightarrow> 'x APMEvent \<Rightarrow> (bytes \<times> error option) list \<Rightarrow> int
     \<Rightarrow> ('x, 'v, 'q) batchProcessor \<Rightarrow> Result \<Rightarrow> 'q \<Rightarrow> 'v store
     \<Rightarrow> (panic + ('v, 'q) outcome) option" where
  "HandleStream p adm baseEvent r batchSize ProcessBatch res q h =
     (case adm of
        Cancelled cerr \<Rightarrow>
          Some (Inr \<lparr>returned = Some cerr, finalResult = res, downstream = q, finalHeap = h\<rparr>)
      | Admitted \<Rightarrow>
          (case readMetadata p (getStreamReader r) baseEvent h of
             (Some err, sr, baseEvent', h') \<Rightarrow>
               Some (Inr \<lparr>returned = Some err, finalResult = res,
                          downstream = q, finalHeap = h'\<rparr>)
           | (None, sr, baseEvent', h') \<Rightarrow>
               handleLoop p ProcessBatch baseEvent' batchSize sr res q h'))"

section \<open>Example collaborators and inputs\<close>

text \<open>
  Concrete collaborators on which the theorems below are instantiated. A document
  counts as well-formed for the example decoders when it ends with two closing
  braces. The example decoder of a well-formed document appends one event and
  writes the document under the key \<open>doc\<close> into the label map of its input; the
  example downstream processor keeps the batches it was given.
\<close>

definition exampleValid :: "bytes \<Rightarrow> bool" where
  "exampleValid body =
     (2 \<le> length body \<and> last body = CHR ''}'' \<and> last (butlast body) = CHR ''}'')"

definition exampleText :: "error \<Rightarrow> string" where
  "exampleText e =
     (case e of
        JSONDecodeError t \<Rightarrow> t
      | ErrOther t \<Rightarrow> t
      | InvalidInput i \<Rightarrow> Message i
      | ErrLineTooLong \<Rightarrow> ''line too long''
      | _ \<Rightarrow> ''decode error'')"

definition exampleDecode :: "(bytes, bytes) decodeFunc" where
  "exampleDecode rd input h =
     (if exampleValid (LatestLine rd)
      then ([input\<lparr>otherFields := LatestLine rd\<rparr>], None,
            (case Labels input of
               None \<Rightarrow> h
             | Some a \<Rightarrow> h[a := (mapAt h a)(''doc'' \<mapsto> LatestLine rd)]))
      else ([], Some (DecoderError (JSONDecodeError ''data read error'')), h))"

definition exampleDecodeMetadata :: "(bytes, bytes) decodeMetadataFunc" where
  "exampleDecodeMetadata rd out h =
     (case ReadAhead rd of
        (body, err, rd') \<Rightarrow>
          if body = [] \<or> (err \<noteq> None \<and> err \<noteq> Some EOF) then (err, rd', out, h)
          else if exampleValid body then (None, rd', out\<lparr>otherFields := body\<rparr>, h)
          else (Some (JSONDecodeError ''data read error''), rd', out, h))"

definition exampleProcessor :: "(bytes, bytes) Processor" where
  "exampleProcessor =
     \<lparr>decodeMetadata = exampleDecodeMetadata,
      v2DecodeNestedError = exampleDecode,
      v2DecodeNestedMetricset = exampleDecode,
      v2DecodeNestedSpan = exampleDecode,
      v2DecodeNestedTransaction = exampleDecode,
      rumv3DecodeNestedError = exampleDecode,
      rumv3DecodeNestedTransaction = exampleDecode,
      errorsLimit = 5,
      errorText = exampleText\<rparr>"

definition exampleProcessBatch ::
  "(bytes, bytes, bytes APMEvent list list) batchProcessor" where
  "exampleProcessBatch q b h = (None, b, q @ [b], h)"

definition exampleFailingProcessBatch ::
  "(bytes, bytes, bytes APMEvent list list) batchProcessor" where
  "exampleFailingProcessBatch q b h = (Some (ErrOther ''queue is full''), b, q, h)"

definition exampleBase :: "bytes APMEvent" where
  "exampleBase = \<lparr>Labels = Some 0, NumericLabels = None, otherFields = []\<rparr>"

definition exampleStore :: "bytes store" where
  "exampleStore = [Map.empty]"

definition emptyResult :: Result where
  "emptyResult = \<lparr>Accepted = 0, Errors = []\<rparr>"

definition exampleState :: "(bytes \<times> error option) list \<Rightarrow> (bytes, bytes) batchState" where
  "exampleState r =
     \<lparr>reader = getStreamReader r, batch = [], result = emptyResult, heap = exampleStore\<rparr>"

definition fooDocument :: bytes where
  "fooDocument = ''{'' @ [CHR 0x22] @ ''foo'' @ [CHR 0x22] @ '': 1}}''"

section \<open>Documents of a stream\<close>

text \<open>
  The outcome of one read, classified by what the loop body does with it. A document
  is accepted when it is read without error, is not empty, and the decoder its
  root key selects appends exactly one event and returns no error, whatever base
  event and store it is given. It is rejected when it fails with a per-document
  error: either the read fails with an error that \<^verbatim>\<open>wrapError\<close> turns into an
  \<^verbatim>\<open>InvalidInputError\<close> (an over-size line, a JSON decode error), or it is read,
  is not empty, and decoding it appends nothing and returns an error (a malformed
  document; an unrecognized kind). A blank line is an empty line read without error.
\<close>

definition acceptedDoc :: "('x, 'v) Processor \<Rightarrow> bytes \<times> error option \<Rightarrow> bool" where
  "acceptedDoc p d =
     (snd d = None \<and> fst d \<noteq> [] \<and>
      (\<exists>t. identifyEventType (fst d) = Inr t \<and>
         (\<forall>rd input h. LatestLine rd = fst d \<longrightarrow>
            (\<exists>ev h'. decodeSwitch p (goString t) rd input h = ([ev], None, h')))))"

definition rejectedDoc :: "('x, 'v) Processor \<Rightarrow> bytes \<times> error option \<Rightarrow> bool" where
  "rejectedDoc p d =
     (case snd d of
        Some e \<Rightarrow>
          e \<noteq> EOF \<and>
          (\<forall>rd. \<exists>e'. wrapError (errorText p) rd (Some e) = Some e' \<and> asInvalidInput e' \<noteq> None)
      | None \<Rightarrow>
          fst d \<noteq> [] \<and>
          (\<exists>t. identifyEventType (fst d) = Inr t \<and>
             (\<forall>rd input h. LatestLine rd = fst d \<longrightarrow>
                (\<exists>e h'. decodeSwitch p (goString t) rd input h = ([], Some e, h') \<and> e \<noteq> EOF))))"

definition blankLine :: "bytes \<times> error option \<Rightarrow> bool" where
  "blankLine d = (d = ([], None))"

text \<open>
  The length of the capped error list after \<open>k\<close> further calls of \<^verbatim>\<open>LimitedAdd\<close>, and a
  downstream processor that accepts every batch and keeps its length.
\<close>

definition cappedLength :: "nat \<Rightarrow> nat \<Rightarrow> nat \<Rightarrow> nat" where
  "cappedLength limit len k = max len (min limit (len + k))"

definition benignDoc :: "('x, 'v) Processor \<Rightarrow> bytes \<times> error option \<Rightarrow> bool" where
  "benignDoc p d = (acceptedDoc p d \<or> rejectedDoc p d \<or> blankLine d)"

definition reliableProcessor :: "('x, 'v, 'q) batchProcessor \<Rightarrow> bool" where
  "reliableProcessor PB =
     (\<forall>q b h. \<exists>b' q' h'. PB q b h = (None, b', q', h') \<and> length b' = length b)"

text \<open>Example documents.\<close>

definition metadataDocument :: bytes where
  "metadataDocument = ''{'' @ [CHR 0x22] @ ''metadata'' @ [CHR 0x22] @ '': {}}''"

definition transactionDocument :: bytes where
  "transactionDocument = ''{'' @ [CHR 0x22] @ ''transaction'' @ [CHR 0x22] @ '': {}}''"

definition spanDocument :: bytes where
  "spanDocument = ''{'' @ [CHR 0x27] @ ''span'' @ [CHR 0x27] @ '': {}}''"

definition malformedDocument :: bytes where
  "malformedDocument = ''{'' @ [CHR 0x22] @ ''span'' @ [CHR 0x22] @ '': {''"

section \<open>Auxiliary notions for the stream loop\<close>

text \<open>
  The number of reads after which the reader is at the end of its input, which
  bounds the iterations of the loops; and the instrumentation of a downstream
  processor that logs the length of every batch it accepted.
\<close>

definition remaining :: "streamReader \<Rightarrow> nat" where
  "remaining sr = length (pending sr) + (if isEOF sr then 0 else 1)"

definition recording ::
  "('x, 'v, 'q) batchProcessor \<Rightarrow> ('x, 'v, 'q \<times> nat list) batchProcessor" where
  "recording PB ql b h =
     (case PB (fst ql) b h of
        (None, b', q', h') \<Rightarrow> (None, b', (q', snd ql @ [length b']), h')
      | (Some err, b', q', h') \<Rightarrow> (Some err, b', (q', snd ql), h'))"

text \<open>
  A decoder that fails with an error that is no \<^verbatim>\<open>InvalidInputError\<close>, a processor
  whose span decoder is that one, and the event the example decoder appends for a
  document when the label map of its input is at address \<open>a\<close>.
\<close>

definition exampleBrokenDecode :: "(bytes, bytes) decodeFunc" where
  "exampleBrokenDecode rd input h = ([], Some (ErrOther ''internal failure''), h)"

definition exampleBrokenProcessor :: "(bytes, bytes) Processor" where
  "exampleBrokenProcessor = exampleProcessor\<lparr>v2DecodeNestedSpan := exampleBrokenDecode\<rparr>"

definition exampleEvent :: "nat \<Rightarrow> bytes \<Rightarrow> bytes APMEvent" where
  "exampleEvent a body = \<lparr>Labels = Some a, NumericLabels = None, otherFields = body\<rparr>"

text \<open>
  The errors of a read that \<^verbatim>\<open>wrapError\<close> leaves as they are and that
  \<^verbatim>\<open>errors.As\<close> does not find to be an \<^verbatim>\<open>InvalidInputError\<close>.
\<close>

definition unrecoverable :: "error \<Rightarrow> bool" where
  "unrecoverable e =
     (case e of
        EOF \<Rightarrow> False
      | JSONDecodeError t \<Rightarrow> False
      | DecoderError u \<Rightarrow> \<not> isErrLineTooLong u \<and> asInvalidInput u = None
      | _ \<Rightarrow> \<not> isErrLineTooLong e \<and> asInvalidInput e = None)"

section \<open>Decoders and the store\<close>

text \<open>
  A decoder keeps to its frame when it never shrinks the store and changes no map
  that was in the store when it was called, other than the label maps of its own
  input event: it writes only through its input, or to maps it allocates.
\<close>

definition framedDecoder :: "('x, 'v) decodeFunc \<Rightarrow> bool" where
  "framedDecoder d =
     (\<forall>rd input h evs err h'.
        d rd input h = (evs, err, h') \<longrightarrow>
        length h \<le> length h' \<and>
        (\<forall>a<length h. Some a \<noteq> Labels input \<and> Some a \<noteq> NumericLabels input \<longrightarrow>
           mapAt h' a = mapAt h a))"

definition framedDecoders :: "('x, 'v) Processor \<Rightarrow> bool" where
  "framedDecoders p =
     (framedDecoder (v2DecodeNestedError p) \<and> framedDecoder (v2DecodeNestedMetricset p) \<and>
      framedDecoder (v2DecodeNestedSpan p) \<and> framedDecoder (v2DecodeNestedTransaction p) \<and>
      framedDecoder (rumv3DecodeNestedError p) \<and>
      framedDecoder (rumv3DecodeNestedTransaction p))"

section \<open>Properties of the classifier\<close>

lemma findQuote_None:
  "(findQuote body i = None) = (\<forall>c\<in>set body. c \<noteq> CHR 0x22 \<and> c \<noteq> CHR 0x27)"
  by (induction body arbitrary: i) auto

lemma findQuote_append:
  "\<forall>c\<in>set pre. c \<noteq> CHR 0x22 \<and> c \<noteq> CHR 0x27 \<Longrightarrow> q = CHR 0x22 \<or> q = CHR 0x27 \<Longrightarrow>
   findQuote (pre @ q # rest) i = Some (i + int (length pre), q)"
  by (induction pre arbitrary: i) auto

lemma findQuote_range:
  "findQuote body i = Some (j, r) \<Longrightarrow> i \<le> j \<and> j < i + int (length body)"
proof (induction body arbitrary: i)
  case Nil
  then show ?case by simp
next
  case (Cons a body)
  show ?case
  proof (cases "a = CHR 0x22 \<or> a = CHR 0x27")
    case True
    with Cons.prems show ?thesis by auto
  next
    case False
    with Cons.prems have "findQuote body (i + 1) = Some (j, r)" by simp
    from Cons.IH[OF this] show ?thesis by simp
  qed
qed

lemma IndexByte_notin: "c \<notin> set k \<Longrightarrow> IndexByte k c = - 1"
  by (induction k) auto

lemma IndexByte_first: "c \<notin> set tok \<Longrightarrow> IndexByte (tok @ c # rest) c = int (length tok)"
  by (induction tok) (auto simp: Let_def)

lemma IndexByte_range:
  "IndexByte k c \<noteq> - 1 \<Longrightarrow> 0 \<le> IndexByte k c \<and> IndexByte k c < int (length k)"
  by (induction k) (auto simp: Let_def split: if_splits)

text \<open>No slice expression of the classifier is ever out of range.\<close>

lemma identifyEventType_returns: "\<exists>t. identifyEventType body = Inr t"
proof (cases "findQuote body 0")
  case None
  then show ?thesis by (simp add: identifyEventType_def)
next
  case (Some a)
  obtain j r where a: "a = (j, r)" by (cases a)
  from Some a findQuote_range[of body 0 j r] have r: "0 \<le> j" "j < int (length body)" by auto
  let ?k = "drop (nat (j + 1)) body"
  have sf: "sliceFrom body (j + 1) = Inr ?k" using r by (simp add: sliceFrom_def)
  show ?thesis
  proof (cases "IndexByte ?k r = - 1")
    case True
    then show ?thesis using Some a sf by (simp add: identifyEventType_def)
  next
    case False
    from IndexByte_range[OF False]
    have "sliceTo ?k (IndexByte ?k r) = Inr (take (nat (IndexByte ?k r)) ?k)"
      by (simp add: sliceTo_def)
    then show ?thesis using Some a sf False by (simp add: identifyEventType_def Let_def)
  qed
qed

lemma identifyEventType_token:
  assumes "\<forall>c\<in>set pre. c \<noteq> CHR 0x22 \<and> c \<noteq> CHR 0x27" "q = CHR 0x22 \<or> q = CHR 0x27"
    "q \<notin> set tok"
  shows "identifyEventType (pre @ q # tok @ q # rest) = Inr (Some tok)"
proof -
  have fq: "findQuote (pre @ q # tok @ q # rest) 0 = Some (int (length pre), q)"
    using findQuote_append[OF assms(1,2), of "tok @ q # rest" 0] by simp
  have sf: "sliceFrom (pre @ q # tok @ q # rest) (int (length pre) + 1) = Inr (tok @ q # rest)"
    by (simp add: sliceFrom_def nat_add_distrib)
  have ib: "IndexByte (tok @ q # rest) q = int (length tok)"
    using assms(3) by (rule IndexByte_first)
  have st: "sliceTo (tok @ q # rest) (int (length tok)) = Inr tok"
    by (simp add: sliceTo_def)
  show ?thesis by (simp add: identifyEventType_def fq sf ib st)
qed

lemma identifyEventType_unclosed:
  assumes "\<forall>c\<in>set pre. c \<noteq> CHR 0x22 \<and> c \<noteq> CHR 0x27" "q = CHR 0x22 \<or> q = CHR 0x27"
    "q \<notin> set rest"
  shows "identifyEventType (pre @ q # rest) = Inr None"
proof -
  have fq: "findQuote (pre @ q # rest) 0 = Some (int (length pre), q)"
    using findQuote_append[OF assms(1,2), of rest 0] by simp
  have sf: "sliceFrom (pre @ q # rest) (int (length pre) + 1) = Inr rest"
    by (simp add: sliceFrom_def nat_add_distrib)
  show ?thesis by (simp add: identifyEventType_def fq sf IndexByte_notin[OF assms(3)])
qed

lemma identifyEventType_no_quote:
  assumes "\<forall>c\<in>set body. c \<noteq> CHR 0x22 \<and> c \<noteq> CHR 0x27"
  shows "identifyEventType body = Inr None"
  using assms by (simp add: identifyEventType_def findQuote_None[THEN iffD2])

lemma decodeSwitch_default:
  "t \<notin> knownEventTypes \<Longrightarrow>
   decodeSwitch p t rd input h = ([], Some (Wrapped ErrUnrecognizedObject t), h)"
  by (simp add: decodeSwitch_def knownEventTypes_def)

lemma readBatchIter_unrecognized:
  assumes "ReadAhead (reader s) = (body, err, rd)" "err = None \<or> err = Some EOF" "body \<noteq> []"
    "identifyEventType body = Inr t" "goString t \<notin> knownEventTypes"
  shows "readBatchIter p base s =
     Next (s\<lparr>reader := rd, heap := snd (copyEvent (heap s) base),
              result := LimitedAdd (errorsLimit p)
                (InvalidInput \<lparr>TooLarge = False,
                   Message = goString t @ '': did not recognize object type'',
                   Document = LatestLine rd\<rparr>) (result s)\<rparr>)"
  using assms
  by (auto simp: readBatchIter_def decodeSwitch_default Let_def split: prod.splits)

lemmas example_defs =
  exampleState_def getStreamReader_def emptyResult_def exampleStore_def exampleBase_def
  exampleProcessor_def exampleText_def exampleDecode_def exampleDecodeMetadata_def
  exampleValid_def exampleProcessBatch_def exampleFailingProcessBatch_def

lemmas eventType_defs =
  errorEventType_def metricsetEventType_def spanEventType_def transactionEventType_def
  rumv3ErrorEventType_def rumv3TransactionEventType_def knownEventTypes_def

text \<open>
  C10. \<^verbatim>\<open>identifyEventType\<close> returns for every byte slice: none of its slice
  expressions is out of range. For a body without any quote character the loop
  finds nothing, the closing quote is searched for in the empty slice with the zero
  byte, which fails, and the result is nil. When such a body is a non-empty
  document of the batch loop, the iteration does not return or panic: it records
  the error \<^verbatim>\<open>: did not recognize object type\<close> for the document through
  \<^verbatim>\<open>LimitedAdd\<close>, appends no event, and goes on with the next document.
\<close>

theorem identifyEventType_total:
  "(\<exists>t. identifyEventType body = Inr t) \<and>
   ((\<forall>c\<in>set body. c \<noteq> CHR 0x22 \<and> c \<noteq> CHR 0x27) \<longrightarrow>
      findQuote body 0 = None \<and> IndexByte [] (CHR 0x00) = - 1 \<and>
      identifyEventType body = Inr None \<and>
      (\<forall>p base s err rd.
         ReadAhead (reader s) = (body, err, rd) \<and> (err = None \<or> err = Some EOF) \<and> body \<noteq> []
         \<longrightarrow> readBatchIter p base s =
               Next (s\<lparr>reader := rd, heap := snd (copyEvent (heap s) base),
                        result := LimitedAdd (errorsLimit p)
                          (InvalidInput \<lparr>TooLarge = False,
                             Message = '': did not recognize object type'',
                             Document = body\<rparr>) (result s)\<rparr>)))"
proof (intro conjI impI allI)
  show "\<exists>t. identifyEventType body = Inr t" by (rule identifyEventType_returns)
next
  assume nq: "\<forall>c\<in>set body. c \<noteq> CHR 0x22 \<and> c \<noteq> CHR 0x27"
  then show "findQuote body 0 = None" by (simp add: findQuote_None)
  show "IndexByte [] (CHR 0x00) = - 1" by simp
  from nq show idn: "identifyEventType body = Inr None" by (rule identifyEventType_no_quote)
  fix p :: "('x, 'v) Processor" and base :: "'x APMEvent" and s :: "('x, 'v) batchState"
    and err rd
  assume a: "ReadAhead (reader s) = (body, err, rd) \<and> (err = None \<or> err = Some EOF) \<and> body \<noteq> []"
  then have ll: "LatestLine rd = body"
    by (auto simp: ReadAhead_def LatestLine_def split: list.splits)
  have "goString None \<notin> knownEventTypes" by (simp add: goString_def eventType_defs)
  from readBatchIter_unrecognized[OF _ _ _ idn this, of s err rd p base] a ll
  show "readBatchIter p base s =
        Next (s\<lparr>reader := rd, heap := snd (copyEvent (heap s) base),
                 result := LimitedAdd (errorsLimit p)
                   (InvalidInput \<lparr>TooLarge = False,
                      Message = '': did not recognize object type'',
                      Document = body\<rparr>) (result s)\<rparr>)"
    by (simp add: goString_def)
qed

theorem identifyEventType_total_witness:
  "identifyEventType ''{}'' = Inr None \<and>
   readBatchIter exampleProcessor exampleBase (exampleState [(''{}'', None)]) =
     Next \<lparr>reader = \<lparr>pending = [], isEOF = False, latestLine = ''{}''\<rparr>,
           batch = [],
           result = \<lparr>Accepted = 0,
                      Errors = [InvalidInput \<lparr>TooLarge = False,
                                  Message = '': did not recognize object type'',
                                  Document = ''{}''\<rparr>]\<rparr>,
           heap = [Map.empty, Map.empty]\<rparr>"
proof -
  have nq: "\<forall>c\<in>set ''{}''. c \<noteq> CHR 0x22 \<and> c \<noteq> CHR 0x27" by simp
  have ra: "ReadAhead (reader (exampleState [(''{}'', None)])) =
      (''{}'', None, \<lparr>pending = [], isEOF = False, latestLine = ''{}''\<rparr>)"
    by (simp add: ReadAhead_def example_defs)
  from identifyEventType_total[of "''{}''"] nq
  have t: "identifyEventType ''{}'' = Inr None"
    and it: "\<And>p base s err rd. ReadAhead (reader s) = (''{}'', err, rd) \<Longrightarrow>
         err = None \<or> err = Some EOF \<Longrightarrow>
         readBatchIter p base s =
           Next (s\<lparr>reader := rd, heap := snd (copyEvent (heap s) base),
                    result := LimitedAdd (errorsLimit p)
                      (InvalidInput \<lparr>TooLarge = False,
                         Message = '': did not recognize object type'',
                         Document = ''{}''\<rparr>) (result s)\<rparr>)"
    by blast+
  have "readBatchIter exampleProcessor exampleBase (exampleState [(''{}'', None)]) =
      Next ((exampleState [(''{}'', None)])\<lparr>reader := \<lparr>pending = [], isEOF = False, latestLine = ''{}''\<rparr>,
              heap := snd (copyEvent (heap (exampleState [(''{}'', None)])) exampleBase),
              result := LimitedAdd (errorsLimit exampleProcessor)
                (InvalidInput \<lparr>TooLarge = False,
                   Message = '': did not recognize object type'',
                   Document = ''{}''\<rparr>) (result (exampleState [(''{}'', None)]))\<rparr>)"
    by (rule it[OF ra]) simp
  then show ?thesis using t
    by (simp add: example_defs copyEvent_def Clone_def mapAt_def LimitedAdd_def)
qed

text \<open>
  C6. When the first quote character of the body (either kind) is followed by a
  later occurrence of the same character, \<^verbatim>\<open>identifyEventType\<close> returns exactly the
  bytes strictly between the two; when no such occurrence follows, it returns nil.
  So a root key classifies the same whichever of the two quote characters
  surrounds it. In the batch loop, a non-empty document whose token is none of the
  six known kinds (the empty token included) appends no event and is recorded,
  through \<^verbatim>\<open>LimitedAdd\<close>, as the error \<^verbatim>\<open>did not recognize object type\<close> prefixed
  by the token; the loop goes on.
\<close>

theorem identifyEventType_quoted:
  assumes pre: "\<forall>c\<in>set pre. c \<noteq> CHR 0x22 \<and> c \<noteq> CHR 0x27"
    and q: "q = CHR 0x22 \<or> q = CHR 0x27"
  shows
    "(q \<notin> set tok \<longrightarrow> identifyEventType (pre @ q # tok @ q # rest) = Inr (Some tok)) \<and>
     (q \<notin> set rest \<longrightarrow> identifyEventType (pre @ q # rest) = Inr None) \<and>
     (CHR 0x22 \<notin> set tok \<and> CHR 0x27 \<notin> set tok \<longrightarrow>
        identifyEventType (pre @ CHR 0x22 # tok @ CHR 0x22 # rest) =
        identifyEventType (pre @ CHR 0x27 # tok @ CHR 0x27 # rest')) \<and>
     (\<forall>p base s body err rd t.
        ReadAhead (reader s) = (body, err, rd) \<and> (err = None \<or> err = Some EOF) \<and> body \<noteq> [] \<and>
        identifyEventType body = Inr t \<and> goString t \<notin> knownEventTypes
        \<longrightarrow> readBatchIter p base s =
              Next (s\<lparr>reader := rd, heap := snd (copyEvent (heap s) base),
                       result := LimitedAdd (errorsLimit p)
                         (InvalidInput \<lparr>TooLarge = False,
                            Message = goString t @ '': did not recognize object type'',
                            Document = body\<rparr>) (result s)\<rparr>))"
proof (intro conjI impI allI)
  assume "q \<notin> set tok"
  with pre q show "identifyEventType (pre @ q # tok @ q # rest) = Inr (Some tok)"
    by (rule identifyEventType_token)
next
  assume "q \<notin> set rest"
  with pre q show "identifyEventType (pre @ q # rest) = Inr None"
    by (rule identifyEventType_unclosed)
next
  assume t: "CHR 0x22 \<notin> set tok \<and> CHR 0x27 \<notin> set tok"
  have "identifyEventType (pre @ CHR 0x22 # tok @ CHR 0x22 # rest) = Inr (Some tok)"
    using pre t by (intro identifyEventType_token) auto
  moreover have "identifyEventType (pre @ CHR 0x27 # tok @ CHR 0x27 # rest') = Inr (Some tok)"
    using pre t by (intro identifyEventType_token) auto
  ultimately show "identifyEventType (pre @ CHR 0x22 # tok @ CHR 0x22 # rest) =
        identifyEventType (pre @ CHR 0x27 # tok @ CHR 0x27 # rest')" by simp
next
  fix p :: "('x, 'v) Processor" and base :: "'x APMEvent" and s :: "('x, 'v) batchState"
    and body err rd t
  assume a: "ReadAhead (reader s) = (body, err, rd) \<and> (err = None \<or> err = Some EOF) \<and> body \<noteq> [] \<and>
        identifyEventType body = Inr t \<and> goString t \<notin> knownEventTypes"
  then have ll: "LatestLine rd = body"
    by (auto simp: ReadAhead_def LatestLine_def split: list.splits)
  from a have "readBatchIter p base s =
     Next (s\<lparr>reader := rd, heap := snd (copyEvent (heap s) base),
              result := LimitedAdd (errorsLimit p)
                (InvalidInput \<lparr>TooLarge = False,
                   Message = goString t @ '': did not recognize object type'',
                   Document = LatestLine rd\<rparr>) (result s)\<rparr>)"
    by (intro readBatchIter_unrecognized) auto
  with ll show "readBatchIter p base s =
              Next (s\<lparr>reader := rd, heap := snd (copyEvent (heap s) base),
                       result := LimitedAdd (errorsLimit p)
                         (InvalidInput \<lparr>TooLarge = False,
                            Message = goString t @ '': did not recognize object type'',
                            Document = body\<rparr>) (result s)\<rparr>)" by simp
qed

theorem identifyEventType_quoted_witness:
  "identifyEventType (''{'' @ CHR 0x22 # ''span'' @ CHR 0x22 # '': {}}'') = Inr (Some ''span'') \<and>
   identifyEventType (''{'' @ CHR 0x27 # ''span: {}}'') = Inr None \<and>
   identifyEventType (''{'' @ CHR 0x22 # ''span'' @ CHR 0x22 # '': {}}'') =
     identifyEventType (''{'' @ CHR 0x27 # ''span'' @ CHR 0x27 # '': {}}'') \<and>
   readBatchIter exampleProcessor exampleBase (exampleState [(fooDocument, None)]) =
     Next \<lparr>reader = \<lparr>pending = [], isEOF = False, latestLine = fooDocument\<rparr>,
           batch = [],
           result = \<lparr>Accepted = 0,
                      Errors = [InvalidInput \<lparr>TooLarge = False,
                                  Message = ''foo: did not recognize object type'',
                                  Document = fooDocument\<rparr>]\<rparr>,
           heap = [Map.empty, Map.empty]\<rparr>"
proof -
  have pre: "\<forall>c\<in>set ''{''. c \<noteq> CHR 0x22 \<and> c \<noteq> CHR 0x27" by simp
  have q1: "CHR 0x22 = CHR 0x22 \<or> CHR 0x22 = CHR 0x27" by simp
  have q2: "CHR 0x27 = CHR 0x22 \<or> CHR 0x27 = CHR 0x27" by simp
  have n1: "CHR 0x22 \<notin> set ''span''" "CHR 0x27 \<notin> set ''span''" "CHR 0x27 \<notin> set ''span: {}}''"
    "CHR 0x22 \<notin> set ''foo''"
    by simp_all
  note th = identifyEventType_quoted[OF pre q1, of "''span''" "'': {}}''" "'': {}}''"]
  note th2 = identifyEventType_quoted[OF pre q2, of "[]" "''span: {}}''" "[]"]
  note th3 = identifyEventType_quoted[OF pre q1, of "''foo''" "'': 1}}''" "[]"]
  have a: "identifyEventType (''{'' @ CHR 0x22 # ''span'' @ CHR 0x22 # '': {}}'') = Inr (Some ''span'')"
    using th n1 by blast
  have b: "identifyEventType (''{'' @ CHR 0x27 # ''span: {}}'') = Inr None"
    using th2 n1 by blast
  have c: "identifyEventType (''{'' @ CHR 0x22 # ''span'' @ CHR 0x22 # '': {}}'') =
     identifyEventType (''{'' @ CHR 0x27 # ''span'' @ CHR 0x27 # '': {}}'')"
    using th n1 by blast
  have ra: "ReadAhead (reader (exampleState [(fooDocument, None)])) =
      (fooDocument, None, \<lparr>pending = [], isEOF = False, latestLine = fooDocument\<rparr>)"
    by (simp add: ReadAhead_def example_defs)
  have idt: "identifyEventType fooDocument = Inr (Some ''foo'')"
    using th3 n1 unfolding fooDocument_def append_Cons append_Nil by blast
  have nk: "goString (Some ''foo'') \<notin> knownEventTypes"
    by (simp add: goString_def eventType_defs)
  have ne: "fooDocument \<noteq> []" by (simp add: fooDocument_def)
  from th have "\<And>p base s body err rd t.
        ReadAhead (reader s) = (body, err, rd) \<Longrightarrow> (err = None \<or> err = Some EOF) \<Longrightarrow> body \<noteq> [] \<Longrightarrow>
        identifyEventType body = Inr t \<Longrightarrow> goString t \<notin> knownEventTypes
        \<Longrightarrow> readBatchIter p base (s :: (bytes, bytes) batchState) =
              Next (s\<lparr>reader := rd, heap := snd (copyEvent (heap s) base),
                       result := LimitedAdd (errorsLimit p)
                         (InvalidInput \<lparr>TooLarge = False,
                            Message = goString t @ '': did not recognize object type'',
                            Document = body\<rparr>) (result s)\<rparr>)"
    by blast
  from this[OF ra _ ne idt nk]
  have d: "readBatchIter exampleProcessor exampleBase (exampleState [(fooDocument, None)]) =
     Next \<lparr>reader = \<lparr>pending = [], isEOF = False, latestLine = fooDocument\<rparr>,
           batch = [],
           result = \<lparr>Accepted = 0,
                      Errors = [InvalidInput \<lparr>TooLarge = False,
                                  Message = ''foo: did not recognize object type'',
                                  Document = fooDocument\<rparr>]\<rparr>,
           heap = [Map.empty, Map.empty]\<rparr>"
    by (simp add: example_defs copyEvent_def Clone_def mapAt_def LimitedAdd_def goString_def)
  from a b c d show ?thesis by blast
qed

section \<open>The batch loop on streams of accepted, rejected and blank documents\<close>

lemma ReadAhead_Cons:
  "pending sr = (body, err) # rest \<Longrightarrow>
   ReadAhead sr = (body, err, \<lparr>pending = rest, isEOF = (err = Some EOF), latestLine = body\<rparr>)"
  by (simp add: ReadAhead_def)

lemma ReadAhead_Nil:
  "pending sr = [] \<Longrightarrow> ReadAhead sr = ([], Some EOF, sr\<lparr>isEOF := True, latestLine := []\<rparr>)"
  by (simp add: ReadAhead_def)

lemma ReadAhead_latest: "ReadAhead sr = (body, err, rd) \<Longrightarrow> LatestLine rd = body"
  by (auto simp: ReadAhead_def LatestLine_def split: list.splits)

lemma readBatchIter_read_recorded:
  assumes "ReadAhead (reader s) = (body, Some e, rd)" "e \<noteq> EOF"
    "wrapError (errorText p) rd (Some e) = Some e'" "asInvalidInput e' \<noteq> None"
  shows "readBatchIter p base s =
           Next (s\<lparr>reader := rd, result := LimitedAdd (errorsLimit p) e' (result s)\<rparr>)"
  using assms by (simp add: readBatchIter_def)

lemma readBatchIter_read_fatal:
  assumes "ReadAhead (reader s) = (body, Some e, rd)" "e \<noteq> EOF"
    "wrapError (errorText p) rd (Some e) = Some e'" "asInvalidInput e' = None"
  shows "readBatchIter p base s = Return (Some e') (s\<lparr>reader := rd\<rparr>)"
  using assms by (simp add: readBatchIter_def)

lemma readBatchIter_blank:
  assumes "ReadAhead (reader s) = ([], err, rd)" "err = None \<or> err = Some EOF"
  shows "readBatchIter p base s = Next (s\<lparr>reader := rd\<rparr>)"
  using assms by (auto simp: readBatchIter_def)

lemma readBatchIter_decode:
  assumes "ReadAhead (reader s) = (body, err, rd)" "err = None \<or> err = Some EOF" "body \<noteq> []"
    "identifyEventType body = Inr t" "copyEvent (heap s) base = (input, h1)"
    "decodeSwitch p (goString t) rd input h1 = (evs, derr, h2)"
  shows "readBatchIter p base s =
     Next (s\<lparr>reader := rd, batch := batch s @ evs, heap := h2,
              result := (case derr of
                           None \<Rightarrow> result s
                         | Some e \<Rightarrow>
                             if e \<noteq> EOF
                             then LimitedAdd (errorsLimit p)
                                    (InvalidInput \<lparr>TooLarge = False,
                                       Message = Error (errorText p) e,
                                       Document = body\<rparr>) (result s)
                             else result s)\<rparr>)"
  using assms ReadAhead_latest[OF assms(1)]
  by (auto simp: readBatchIter_def Let_def split: option.splits)

lemma wrapError_Some: "\<exists>e'. wrapError ext rd (Some e) = Some e'"
  by (cases e) (auto simp: wrapError_def Let_def)

lemma wrapError_not_EOF: "e \<noteq> EOF \<Longrightarrow> wrapError ext rd (Some e) \<noteq> Some EOF"
  by (cases e) (auto simp: wrapError_def Let_def)

lemma cappedLength_0: "cappedLength limit len 0 = len"
  by (simp add: cappedLength_def)

lemma cappedLength_LimitedAdd:
  "cappedLength limit (length (Errors (LimitedAdd limit e r))) k =
   cappedLength limit (length (Errors r)) (Suc k)"
  by (auto simp: cappedLength_def LimitedAdd_def)

lemma cappedLength_add:
  "cappedLength limit (cappedLength limit len j) k = cappedLength limit len (j + k)"
  by (auto simp: cappedLength_def)

lemma accepted_not_rejected: "acceptedDoc p d \<Longrightarrow> \<not> rejectedDoc p d"
proof
  assume a: "acceptedDoc p d" and r: "rejectedDoc p d"
  let ?rd = "\<lparr>pending = [], isEOF = False, latestLine = fst d\<rparr>"
  have ll: "LatestLine ?rd = fst d" by (simp add: LatestLine_def)
  from a obtain t where t: "identifyEventType (fst d) = Inr t"
    and da: "\<And>rd input h. LatestLine rd = fst d \<Longrightarrow>
            \<exists>ev h'. decodeSwitch p (goString t) rd input h = ([ev], None, h')"
    and sn: "snd d = None"
    unfolding acceptedDoc_def by blast
  from r sn t have dr: "\<And>rd input h. LatestLine rd = fst d \<Longrightarrow>
            \<exists>e h'. decodeSwitch p (goString t) rd input h = ([], Some e, h') \<and> e \<noteq> EOF"
    unfolding rejectedDoc_def by auto
  from da[OF ll, of undefined "[]"] dr[OF ll, of undefined "[]"] show False by auto
qed

lemma blank_not_accepted: "blankLine d \<Longrightarrow> \<not> acceptedDoc p d"
  by (auto simp: blankLine_def acceptedDoc_def)

lemma blank_not_rejected: "blankLine d \<Longrightarrow> \<not> rejectedDoc p d"
  by (auto simp: blankLine_def rejectedDoc_def)

text \<open>One iteration on a benign document.\<close>

lemma readBatchIter_accepted:
  assumes "pending (reader s) = d # rest" "acceptedDoc p d"
  shows "\<exists>s1. readBatchIter p base s = Next s1 \<and> pending (reader s1) = rest \<and>
           \<not> isEOF (reader s1) \<and> length (batch s1) = Suc (length (batch s)) \<and>
           result s1 = result s"
proof -
  obtain body err where d: "d = (body, err)" by (cases d)
  from assms(2) d obtain t where e: "err = None" and ne: "body \<noteq> []"
    and t: "identifyEventType body = Inr t"
    and dec: "\<And>rd input h. LatestLine rd = body \<Longrightarrow>
            \<exists>ev h'. decodeSwitch p (goString t) rd input h = ([ev], None, h')"
    unfolding acceptedDoc_def by auto
  let ?rd = "\<lparr>pending = rest, isEOF = False, latestLine = body\<rparr>"
  have ra: "ReadAhead (reader s) = (body, err, ?rd)"
    using ReadAhead_Cons[of "reader s" body err rest] assms(1) d e by simp
  obtain input h1 where ce: "copyEvent (heap s) base = (input, h1)" by (cases "copyEvent (heap s) base")
  from dec[of ?rd input h1] obtain ev h2 where
    ds: "decodeSwitch p (goString t) ?rd input h1 = ([ev], None, h2)"
    by (auto simp: LatestLine_def)
  from readBatchIter_decode[OF ra _ ne t ce ds] e
  show ?thesis by simp
qed

lemma readBatchIter_rejected:
  assumes "pending (reader s) = d # rest" "rejectedDoc p d"
  shows "\<exists>s1 e. readBatchIter p base s = Next s1 \<and> pending (reader s1) = rest \<and>
           \<not> isEOF (reader s1) \<and> batch s1 = batch s \<and>
           result s1 = LimitedAdd (errorsLimit p) e (result s) \<and> asInvalidInput e \<noteq> None"
proof -
  obtain body err where d: "d = (body, err)" by (cases d)
  show ?thesis
  proof (cases err)
    case (Some e)
    let ?rd = "\<lparr>pending = rest, isEOF = False, latestLine = body\<rparr>"
    from assms(2) d Some have ne: "e \<noteq> EOF"
      and w: "\<exists>e'. wrapError (errorText p) ?rd (Some e) = Some e' \<and> asInvalidInput e' \<noteq> None"
      unfolding rejectedDoc_def by auto
    then obtain e' where w1: "wrapError (errorText p) ?rd (Some e) = Some e'"
      and w2: "asInvalidInput e' \<noteq> None" by blast
    have ra: "ReadAhead (reader s) = (body, Some e, ?rd)"
      using ReadAhead_Cons[of "reader s" body err rest] assms(1) d Some ne by simp
    from readBatchIter_read_recorded[OF ra ne w1 w2, of base] w2 show ?thesis
      by (intro exI[of _ "s\<lparr>reader := ?rd, result := LimitedAdd (errorsLimit p) e' (result s)\<rparr>"]
          exI[of _ e']) simp
  next
    case None
    from assms(2) d None obtain t where ne: "body \<noteq> []"
      and t: "identifyEventType body = Inr t"
      and dec: "\<And>rd input h. LatestLine rd = body \<Longrightarrow>
            \<exists>e h'. decodeSwitch p (goString t) rd input h = ([], Some e, h') \<and> e \<noteq> EOF"
      unfolding rejectedDoc_def by auto
    let ?rd = "\<lparr>pending = rest, isEOF = False, latestLine = body\<rparr>"
    have ra: "ReadAhead (reader s) = (body, err, ?rd)"
      using ReadAhead_Cons[of "reader s" body err rest] assms(1) d None by simp
    obtain input h1 where ce: "copyEvent (heap s) base = (input, h1)"
      by (cases "copyEvent (heap s) base")
    from dec[of ?rd input h1] obtain e h2 where
      ds: "decodeSwitch p (goString t) ?rd input h1 = ([], Some e, h2)" and e: "e \<noteq> EOF"
      by (auto simp: LatestLine_def)
    from readBatchIter_decode[OF ra _ ne t ce ds] None e
    show ?thesis
      by (intro exI[of _ "s\<lparr>reader := ?rd, batch := batch s @ [], heap := h2,
             result := LimitedAdd (errorsLimit p)
               (InvalidInput \<lparr>TooLarge = False, Message = Error (errorText p) e,
                  Document = body\<rparr>) (result s)\<rparr>"]
          exI[of _ "InvalidInput \<lparr>TooLarge = False, Message = Error (errorText p) e,
                  Document = body\<rparr>"]) simp
  qed
qed

lemma readBatchIter_blankLine:
  assumes "pending (reader s) = d # rest" "blankLine d"
  shows "\<exists>s1. readBatchIter p base s = Next s1 \<and> pending (reader s1) = rest \<and>
           \<not> isEOF (reader s1) \<and> batch s1 = batch s \<and> result s1 = result s"
proof -
  let ?rd = "\<lparr>pending = rest, isEOF = False, latestLine = []\<rparr>"
  have ra: "ReadAhead (reader s) = ([], None, ?rd)"
    using ReadAhead_Cons[of "reader s" "[]" None rest] assms by (simp add: blankLine_def)
  from readBatchIter_blank[OF ra] show ?thesis by simp
qed

lemma readBatchIter_end:
  assumes "pending (reader s) = []"
  shows "\<exists>s1. readBatchIter p base s = Next s1 \<and> pending (reader s1) = [] \<and>
           isEOF (reader s1) \<and> batch s1 = batch s \<and> result s1 = result s"
proof -
  from readBatchIter_blank[OF ReadAhead_Nil[OF assms]] assms show ?thesis by simp
qed

lemma readBatchLoop_benign:
  assumes "\<forall>d\<in>set (pending (reader s)). benignDoc p d" "\<not> isEOF (reader s)"
    "n = nat (batchSize - i)"
  shows "\<exists>s'. readBatchLoop p base batchSize i s = Next s' \<and>
           pending (reader s') = drop n (pending (reader s)) \<and>
           isEOF (reader s') = (length (pending (reader s)) < n) \<and>
           length (batch s') =
             length (batch s) + length (filter (acceptedDoc p) (take n (pending (reader s)))) \<and>
           Accepted (result s') = Accepted (result s) \<and>
           length (Errors (result s')) =
             cappedLength (errorsLimit p) (length (Errors (result s)))
               (length (filter (rejectedDoc p) (take n (pending (reader s)))))"
  using assms
proof (induction n arbitrary: i s)
  case 0
  then have "\<not> i < batchSize" by simp
  then have "readBatchLoop p base batchSize i s = Next s"
    by (simp add: readBatchLoop.simps)
  with 0 show ?case by (simp add: cappedLength_0)
next
  case (Suc n)
  then have lt: "i < batchSize" and n: "n = nat (batchSize - (i + 1))" by auto
  from Suc.prems(2) have ne: "\<not> IsEOF (reader s)" by (simp add: IsEOF_def)
  show ?case
  proof (cases "pending (reader s)")
    case Nil
    from readBatchIter_end[OF Nil, of p base] obtain s1 where
      it: "readBatchIter p base s = Next s1" and p1: "pending (reader s1) = []"
      and e1: "isEOF (reader s1)" and b1: "batch s1 = batch s" and r1: "result s1 = result s"
      by blast
    have "readBatchLoop p base batchSize (i + 1) s1 = Next s1"
      using e1 by (simp add: readBatchLoop.simps IsEOF_def)
    then have "readBatchLoop p base batchSize i s = Next s1"
      using lt ne it by (subst readBatchLoop.simps) simp
    with Nil p1 e1 b1 r1 show ?thesis by (simp add: cappedLength_0)
  next
    case (Cons d rest)
    from Suc.prems(1) Cons have bd: "benignDoc p d" and br: "\<forall>d\<in>set rest. benignDoc p d"
      by auto
    have step: "\<exists>s1. readBatchIter p base s = Next s1 \<and> pending (reader s1) = rest \<and>
           \<not> isEOF (reader s1) \<and>
           length (batch s1) = length (batch s) + (if acceptedDoc p d then 1 else 0) \<and>
           Accepted (result s1) = Accepted (result s) \<and>
           cappedLength (errorsLimit p) (length (Errors (result s1))) k =
             cappedLength (errorsLimit p) (length (Errors (result s)))
               ((if rejectedDoc p d then 1 else 0) + k)" for k
    proof -
      from bd consider (a) "acceptedDoc p d" | (r) "rejectedDoc p d" | (b) "blankLine d"
        unfolding benignDoc_def by blast
      then show ?thesis
      proof cases
        case a
        with readBatchIter_accepted[OF Cons a, of base] accepted_not_rejected[OF a]
        show ?thesis by auto
      next
        case r
        from accepted_not_rejected[of p d] r have na: "\<not> acceptedDoc p d" by blast
        from readBatchIter_rejected[OF Cons r, of base] obtain s1 e where
          "readBatchIter p base s = Next s1" "pending (reader s1) = rest"
          "\<not> isEOF (reader s1)" "batch s1 = batch s"
          "result s1 = LimitedAdd (errorsLimit p) e (result s)" by blast
        then show ?thesis using r na
          by (auto simp: cappedLength_LimitedAdd) (simp add: LimitedAdd_def)
      next
        case b
        with readBatchIter_blankLine[OF Cons b, of p base]
          blank_not_accepted[OF b, of p] blank_not_rejected[OF b, of p]
        show ?thesis by auto
      qed
    qed
    from step[of "length (filter (rejectedDoc p) (take n rest))"] obtain s1 where
      it: "readBatchIter p base s = Next s1" and p1: "pending (reader s1) = rest"
      and e1: "\<not> isEOF (reader s1)"
      and b1: "length (batch s1) = length (batch s) + (if acceptedDoc p d then 1 else 0)"
      and a1: "Accepted (result s1) = Accepted (result s)"
      and c1: "cappedLength (errorsLimit p) (length (Errors (result s1)))
                 (length (filter (rejectedDoc p) (take n rest))) =
               cappedLength (errorsLimit p) (length (Errors (result s)))
                 ((if rejectedDoc p d then 1 else 0) + length (filter (rejectedDoc p) (take n rest)))"
      by blast
    from Suc.IH[of s1 "i + 1"] br p1 e1 n obtain s' where
      l: "readBatchLoop p base batchSize (i + 1) s1 = Next s'"
      and p': "pending (reader s') = drop n rest"
      and e': "isEOF (reader s') = (length rest < n)"
      and b': "length (batch s') = length (batch s1) + length (filter (acceptedDoc p) (take n rest))"
      and a': "Accepted (result s') = Accepted (result s1)"
      and c': "length (Errors (result s')) =
                 cappedLength (errorsLimit p) (length (Errors (result s1)))
                   (length (filter (rejectedDoc p) (take n rest)))"
      by auto
    have "readBatchLoop p base batchSize i s = Next s'"
      using lt ne it l by (subst readBatchLoop.simps) simp
    with Cons p' e' b' a' c' b1 a1 c1 show ?thesis by auto
  qed
qed

lemma handleLoop_panic:
  assumes "readBatch p base bs \<lparr>reader = sr, batch = [], result = res, heap = h\<rparr> = Inl pn"
  shows "handleLoop p PB base bs sr res q h = Some (Inl pn)"
  using assms by (subst handleLoop.simps) simp

lemma handleLoop_forward_fail:
  assumes "readBatch p base bs \<lparr>reader = sr, batch = [], result = res, heap = h\<rparr> = Inr (n, readErr, s)"
    "0 < n" "PB q (batch s) (heap s) = (Some err, b', q', h')"
  shows "handleLoop p PB base bs sr res q h =
    Some (Inr \<lparr>returned = Some err, finalResult = result s, downstream = q', finalHeap = h'\<rparr>)"
  using assms by (subst handleLoop.simps) simp

lemma handleLoop_forward_ok:
  assumes "readBatch p base bs \<lparr>reader = sr, batch = [], result = res, heap = h\<rparr> = Inr (n, readErr, s)"
    "0 < n" "PB q (batch s) (heap s) = (None, b', q', h')"
  shows "handleLoop p PB base bs sr res q h =
    (if readErr = Some EOF then
       Some (Inr \<lparr>returned = None, finalResult = AddAccepted (int (length b')) (result s),
                  downstream = q', finalHeap = h'\<rparr>)
     else if readErr \<noteq> None then
       Some (Inr \<lparr>returned = readErr, finalResult = AddAccepted (int (length b')) (result s),
                  downstream = q', finalHeap = h'\<rparr>)
     else handleLoop p PB base bs (reader s) (AddAccepted (int (length b')) (result s)) q' h')"
  using assms by (subst handleLoop.simps) simp

lemma handleLoop_nothing:
  assumes "readBatch p base bs \<lparr>reader = sr, batch = [], result = res, heap = h\<rparr> = Inr (n, readErr, s)"
    "\<not> 0 < n"
  shows "handleLoop p PB base bs sr res q h =
    (if readErr = Some EOF then
       Some (Inr \<lparr>returned = None, finalResult = result s, downstream = q, finalHeap = heap s\<rparr>)
     else if readErr \<noteq> None then
       Some (Inr \<lparr>returned = readErr, finalResult = result s, downstream = q, finalHeap = heap s\<rparr>)
     else handleLoop p PB base bs (reader s) (result s) q (heap s))"
  using assms by (subst handleLoop.simps) simp

lemma readBatch_benign:
  assumes "\<forall>d\<in>set (pending (reader s)). benignDoc p d" "\<not> isEOF (reader s)"
  shows "\<exists>s'. readBatch p base batchSize s =
             Inr (int (length (filter (acceptedDoc p) (take (nat batchSize) (pending (reader s))))),
                  (if length (pending (reader s)) < nat batchSize then Some EOF else None), s') \<and>
           pending (reader s') = drop (nat batchSize) (pending (reader s)) \<and>
           isEOF (reader s') = (length (pending (reader s)) < nat batchSize) \<and>
           length (batch s') =
             length (batch s) +
             length (filter (acceptedDoc p) (take (nat batchSize) (pending (reader s)))) \<and>
           Accepted (result s') = Accepted (result s) \<and>
           length (Errors (result s')) =
             cappedLength (errorsLimit p) (length (Errors (result s)))
               (length (filter (rejectedDoc p) (take (nat batchSize) (pending (reader s)))))"
proof -
  from readBatchLoop_benign[OF assms, of "nat batchSize" batchSize 0 base] obtain s' where
    l: "readBatchLoop p base batchSize 0 s = Next s'"
    and r: "pending (reader s') = drop (nat batchSize) (pending (reader s))"
      "isEOF (reader s') = (length (pending (reader s)) < nat batchSize)"
      "length (batch s') =
             length (batch s) +
             length (filter (acceptedDoc p) (take (nat batchSize) (pending (reader s))))"
      "Accepted (result s') = Accepted (result s)"
      "length (Errors (result s')) =
             cappedLength (errorsLimit p) (length (Errors (result s)))
               (length (filter (rejectedDoc p) (take (nat batchSize) (pending (reader s)))))"
    by auto
  from l r show ?thesis
    by (intro exI[of _ s']) (simp add: readBatch_def IsEOF_def)
qed

lemma handleLoop_benign:
  assumes "\<forall>d\<in>set (pending sr). benignDoc p d" "\<not> isEOF sr" "0 < batchSize"
    "reliableProcessor PB"
  shows "\<exists>out. handleLoop p PB base batchSize sr res q h = Some (Inr out) \<and>
           returned out = None \<and>
           Accepted (finalResult out) =
             Accepted res + int (length (filter (acceptedDoc p) (pending sr))) \<and>
           length (Errors (finalResult out)) =
             cappedLength (errorsLimit p) (length (Errors res))
               (length (filter (rejectedDoc p) (pending sr)))"
  using assms(1,2)
proof (induction "length (pending sr)" arbitrary: sr res q h rule: less_induct)
  case less
  let ?s0 = "\<lparr>reader = sr, batch = [], result = res, heap = h\<rparr> :: ('a, 'b) batchState"
  let ?ds = "pending sr"
  let ?n = "nat batchSize"
  let ?acc = "length (filter (acceptedDoc p) (take ?n ?ds))"
  let ?rej = "length (filter (rejectedDoc p) (take ?n ?ds))"
  let ?sig = "if length ?ds < ?n then Some EOF else None"
  from readBatch_benign[of ?s0 p base batchSize] less.prems obtain s' where
    rb: "readBatch p base batchSize ?s0 = Inr (int ?acc, ?sig, s')"
    and pd: "pending (reader s') = drop ?n ?ds"
    and eof: "isEOF (reader s') = (length ?ds < ?n)"
    and bl: "length (batch s') = ?acc"
    and ac: "Accepted (result s') = Accepted res"
    and er: "length (Errors (result s')) = cappedLength (errorsLimit p) (length (Errors res)) ?rej"
    by auto
  have fwd: "\<exists>res' q' h'. Accepted res' = Accepted res + int ?acc \<and> Errors res' = Errors (result s') \<and>
      handleLoop p PB base batchSize sr res q h =
        (if ?sig = Some EOF then
           Some (Inr \<lparr>returned = None, finalResult = res', downstream = q', finalHeap = h'\<rparr>)
         else if ?sig \<noteq> None then
           Some (Inr \<lparr>returned = ?sig, finalResult = res', downstream = q', finalHeap = h'\<rparr>)
         else handleLoop p PB base batchSize (reader s') res' q' h')"
  proof (cases "0 < int ?acc")
    case True
    from assms(4) obtain b' q' h' where
      pb: "PB q (batch s') (heap s') = (None, b', q', h')" and lb: "length b' = length (batch s')"
      unfolding reliableProcessor_def by blast
    show ?thesis
      apply (rule exI[of _ "AddAccepted (int (length b')) (result s')"])
      apply (rule exI[of _ q'])
      apply (rule exI[of _ h'])
      using handleLoop_forward_ok[where PB=PB and q=q, OF rb True pb] lb bl ac
      by (simp add: AddAccepted_def)
  next
    case False
    show ?thesis
      apply (rule exI[of _ "result s'"])
      apply (rule exI[of _ q])
      apply (rule exI[of _ "heap s'"])
      using handleLoop_nothing[where PB=PB and q=q, OF rb False] False ac
      by simp
  qed
  then obtain res' q' h' where
    a': "Accepted res' = Accepted res + int ?acc" and e': "Errors res' = Errors (result s')"
    and hl: "handleLoop p PB base batchSize sr res q h =
        (if ?sig = Some EOF then
           Some (Inr \<lparr>returned = None, finalResult = res', downstream = q', finalHeap = h'\<rparr>)
         else if ?sig \<noteq> None then
           Some (Inr \<lparr>returned = ?sig, finalResult = res', downstream = q', finalHeap = h'\<rparr>)
         else handleLoop p PB base batchSize (reader s') res' q' h')"
    by blast
  show ?case
  proof (cases "length ?ds < ?n")
    case True
    then have "take ?n ?ds = ?ds" by simp
    with True hl a' e' er show ?thesis by simp
  next
    case False
    with assms(3) have shorter: "length (pending (reader s')) < length ?ds"
      using pd by auto
    have ben: "\<forall>d\<in>set (pending (reader s')). benignDoc p d"
      using less.prems(1) pd by (auto dest: in_set_dropD)
    from False eof have ne: "\<not> isEOF (reader s')" by simp
    from less.hyps[OF shorter ben ne, of res' q' h'] obtain out where
      o: "handleLoop p PB base batchSize (reader s') res' q' h' = Some (Inr out)"
      "returned out = None"
      "Accepted (finalResult out) =
         Accepted res' + int (length (filter (acceptedDoc p) (pending (reader s'))))"
      "length (Errors (finalResult out)) =
         cappedLength (errorsLimit p) (length (Errors res'))
           (length (filter (rejectedDoc p) (pending (reader s'))))"
      by blast
    have split: "length (filter P ?ds) =
        length (filter P (take ?n ?ds)) + length (filter P (drop ?n ?ds))" for P
      by (metis append_take_drop_id filter_append length_append)
    from False hl o(1) have "handleLoop p PB base batchSize sr res q h = Some (Inr out)"
      by simp
    with o a' e' er pd show ?thesis
      by (simp add: split[of "acceptedDoc p"] split[of "rejectedDoc p"] cappedLength_add)
  qed
qed

lemmas document_defs =
  metadataDocument_def transactionDocument_def spanDocument_def malformedDocument_def
  fooDocument_def

lemma readMetadata_ok:
  "decodeMetadata p sr base h = (None, sr', base', h') \<Longrightarrow>
   readMetadata p sr base h = (None, sr', base', h')"
  by (simp add: readMetadata_def)

lemma HandleStream_benign:
  assumes "decodeMetadata p (getStreamReader r) base h = (None, sr, base', h')"
    "\<not> isEOF sr" "\<forall>d\<in>set (pending sr). benignDoc p d" "0 < batchSize" "reliableProcessor PB"
  shows "\<exists>out. HandleStream p Admitted base r batchSize PB res q h = Some (Inr out) \<and>
           returned out = None \<and>
           Accepted (finalResult out) =
             Accepted res + int (length (filter (acceptedDoc p) (pending sr))) \<and>
           length (Errors (finalResult out)) =
             cappedLength (errorsLimit p) (length (Errors res))
               (length (filter (rejectedDoc p) (pending sr)))"
  using handleLoop_benign[OF assms(3,2,4,5), of base' res q h'] readMetadata_ok[OF assms(1)]
  by (simp add: HandleStream_def)

lemma filter_all: "\<forall>x\<in>set xs. P x \<Longrightarrow> filter P xs = xs"
  by (induction xs) auto

lemma filter_none: "\<forall>x\<in>set xs. \<not> P x \<Longrightarrow> filter P xs = []"
  by (induction xs) auto

text \<open>
  C1. In the loop body of \<^verbatim>\<open>readBatch\<close>, a rejected document (one whose failure is a
  per-document error: over-size, malformed, of an unrecognized kind) appends nothing
  to the batch, is recorded through \<^verbatim>\<open>LimitedAdd\<close> as an error that is an
  \<^verbatim>\<open>InvalidInputError\<close>, and the loop goes on with the next document. Hence, for a
  stream whose metadata line decodes and whose documents are three accepted ones
  and one rejected one, the rejected one in any position, for any positive batch
  size, an error cap of at least one and a downstream processor that accepts every
  batch, \<^verbatim>\<open>HandleStream\<close> returns, with no error, an accepted count of 3 and exactly
  one recorded error.
\<close>

theorem partial_failure_tolerance:
  assumes "decodeMetadata p (getStreamReader r) base h = (None, sr, base', h')"
    and "\<not> isEOF sr"
    and "pending sr = xs @ bad # ys"
    and "length xs + length ys = 3"
    and "\<forall>d\<in>set xs \<union> set ys. acceptedDoc p d"
    and "rejectedDoc p bad"
    and "0 < batchSize"
    and "0 < errorsLimit p"
    and "reliableProcessor PB"
  shows "(\<forall>base s rest. pending (reader s) = bad # rest \<longrightarrow>
           (\<exists>s1 e. readBatchIter p base s = Next s1 \<and> asInvalidInput e \<noteq> None \<and>
              result s1 = LimitedAdd (errorsLimit p) e (result s) \<and>
              batch s1 = batch s \<and> pending (reader s1) = rest \<and> \<not> isEOF (reader s1))) \<and>
         (\<exists>out. HandleStream p Admitted base r batchSize PB \<lparr>Accepted = 0, Errors = []\<rparr> q h
                   = Some (Inr out) \<and>
            returned out = None \<and> Accepted (finalResult out) = 3 \<and>
            length (Errors (finalResult out)) = 1)"
proof (intro conjI allI impI)
  fix base :: "'a APMEvent" and s :: "('a, 'b) batchState" and rest
  assume "pending (reader s) = bad # rest"
  from readBatchIter_rejected[OF this assms(6), of base]
  show "\<exists>s1 e. readBatchIter p base s = Next s1 \<and> asInvalidInput e \<noteq> None \<and>
              result s1 = LimitedAdd (errorsLimit p) e (result s) \<and>
              batch s1 = batch s \<and> pending (reader s1) = rest \<and> \<not> isEOF (reader s1)"
    by blast
next
  have nb: "\<not> acceptedDoc p bad" using accepted_not_rejected[of p bad] assms(6) by blast
  have nr: "\<forall>d\<in>set xs \<union> set ys. \<not> rejectedDoc p d"
    using assms(5) accepted_not_rejected by blast
  have ben: "\<forall>d\<in>set (pending sr). benignDoc p d"
    using assms(3,5,6) by (auto simp: benignDoc_def)
  have fa: "length (filter (acceptedDoc p) (pending sr)) = 3"
    using assms(3,4,5) nb by (simp add: filter_all)
  have fr: "length (filter (rejectedDoc p) (pending sr)) = 1"
    using assms(3,6) nr by (simp add: filter_none)
  from HandleStream_benign[OF assms(1,2) ben assms(7,9), of "\<lparr>Accepted = 0, Errors = []\<rparr>" q]
    fa fr assms(8)
  show "\<exists>out. HandleStream p Admitted base r batchSize PB \<lparr>Accepted = 0, Errors = []\<rparr> q h
                   = Some (Inr out) \<and>
            returned out = None \<and> Accepted (finalResult out) = 3 \<and>
            length (Errors (finalResult out)) = 1"
    by (auto simp: cappedLength_def)
qed

lemma example_accepted:
  "acceptedDoc exampleProcessor (transactionDocument, None)"
  "acceptedDoc exampleProcessor (spanDocument, None)"
proof -
  have q1: "CHR 0x22 = CHR 0x22 \<or> CHR 0x22 = CHR 0x27" by simp
  have q2: "CHR 0x27 = CHR 0x22 \<or> CHR 0x27 = CHR 0x27" by simp
  have pre: "\<forall>c\<in>set ''{''. c \<noteq> CHR 0x22 \<and> c \<noteq> CHR 0x27" by simp
  have t: "identifyEventType transactionDocument = Inr (Some ''transaction'')"
    using identifyEventType_token[OF pre q1, of "''transaction''" "'': {}}''"]
    by (simp add: transactionDocument_def)
  have s: "identifyEventType spanDocument = Inr (Some ''span'')"
    using identifyEventType_token[OF pre q2, of "''span''" "'': {}}''"]
    by (simp add: spanDocument_def)
  show "acceptedDoc exampleProcessor (transactionDocument, None)"
    unfolding acceptedDoc_def
    by (simp add: t goString_def decodeSwitch_def eventType_defs exampleProcessor_def
        exampleDecode_def)
       (simp add: exampleValid_def transactionDocument_def)
  show "acceptedDoc exampleProcessor (spanDocument, None)"
    unfolding acceptedDoc_def
    by (simp add: s goString_def decodeSwitch_def eventType_defs exampleProcessor_def
        exampleDecode_def)
       (simp add: exampleValid_def spanDocument_def)
qed

lemma example_rejected:
  "rejectedDoc exampleProcessor (malformedDocument, None)"
proof -
  have q1: "CHR 0x22 = CHR 0x22 \<or> CHR 0x22 = CHR 0x27" by simp
  have pre: "\<forall>c\<in>set ''{''. c \<noteq> CHR 0x22 \<and> c \<noteq> CHR 0x27" by simp
  have t: "identifyEventType malformedDocument = Inr (Some ''span'')"
    using identifyEventType_token[OF pre q1, of "''span''" "'': {''"]
    by (simp add: malformedDocument_def)
  show ?thesis
    unfolding rejectedDoc_def
    by (simp add: t goString_def decodeSwitch_def eventType_defs exampleProcessor_def
        exampleDecode_def)
       (simp add: exampleValid_def malformedDocument_def)
qed

lemma example_metadata:
  "decodeMetadata exampleProcessor (getStreamReader ((metadataDocument, None) # ds)) base h =
     (None, \<lparr>pending = ds, isEOF = False, latestLine = metadataDocument\<rparr>,
      base\<lparr>otherFields := metadataDocument\<rparr>, h)"
  by (simp add: exampleProcessor_def exampleDecodeMetadata_def ReadAhead_def getStreamReader_def
      exampleValid_def metadataDocument_def)

lemma example_reliable: "reliableProcessor exampleProcessBatch"
  by (simp add: reliableProcessor_def exampleProcessBatch_def)

theorem partial_failure_tolerance_witness:
  "\<exists>out. HandleStream exampleProcessor Admitted exampleBase
            [(metadataDocument, None), (transactionDocument, None), (malformedDocument, None),
             (spanDocument, None), (transactionDocument, None)]
            2 exampleProcessBatch \<lparr>Accepted = 0, Errors = []\<rparr> [] exampleStore = Some (Inr out) \<and>
     returned out = None \<and> Accepted (finalResult out) = 3 \<and>
     length (Errors (finalResult out)) = 1"
proof -
  have 1: "\<not> isEOF \<lparr>pending = [(transactionDocument, None), (malformedDocument, None),
             (spanDocument, None), (transactionDocument, None)], isEOF = False,
             latestLine = metadataDocument\<rparr>" by simp
  have 2: "pending \<lparr>pending = [(transactionDocument, None), (malformedDocument, None),
             (spanDocument, None), (transactionDocument, None)], isEOF = False,
             latestLine = metadataDocument\<rparr> =
           [(transactionDocument, None)] @ (malformedDocument, None) #
           [(spanDocument, None), (transactionDocument, None)]" by simp
  have 3: "length [(transactionDocument, None :: error option)] +
           length [(spanDocument, None :: error option), (transactionDocument, None)] = 3" by simp
  have 4: "\<forall>d\<in>set [(transactionDocument, None)] \<union>
             set [(spanDocument, None), (transactionDocument, None)].
             acceptedDoc exampleProcessor d"
    using example_accepted by simp
  have 5: "(0::int) < 2" by simp
  have 6: "0 < errorsLimit exampleProcessor" by (simp add: exampleProcessor_def)
  from partial_failure_tolerance[OF example_metadata 1 2 3 4 example_rejected 5 6 example_reliable]
  show ?thesis by blast
qed

section \<open>Over-size documents\<close>

lemma wrapError_LineTooLong:
  "wrapError ext rd (Some ErrLineTooLong) =
     Some (InvalidInput \<lparr>TooLarge = True, Message = ''event exceeded the permitted size.'',
                          Document = LatestLine rd\<rparr>)"
  "wrapError ext rd (Some (DecoderError ErrLineTooLong)) =
     Some (InvalidInput \<lparr>TooLarge = True, Message = ''event exceeded the permitted size.'',
                          Document = LatestLine rd\<rparr>)"
  by (simp_all add: wrapError_def)

lemma rejected_LineTooLong: "rejectedDoc p (line, Some ErrLineTooLong)"
  by (simp add: rejectedDoc_def wrapError_LineTooLong)

text \<open>
  C7. \<^verbatim>\<open>wrapError\<close> turns \<^verbatim>\<open>decoder.ErrLineTooLong\<close>, bare or inside a decoder error,
  into an \<^verbatim>\<open>InvalidInputError\<close> with \<^verbatim>\<open>TooLarge\<close> set and the message
  \<^verbatim>\<open>event exceeded the permitted size.\<close>; the reader reports a line over the
  configured maximum size by that error. In the loop body such a read is recorded
  through \<^verbatim>\<open>LimitedAdd\<close> and the loop goes on; it is not returned. A stream with one
  over-size line among accepted documents, before and after it, is handled without
  a terminal error, and every accepted document, also those after the over-size
  line, is counted as accepted.
\<close>

theorem oversize_document:
  assumes "decodeMetadata p (getStreamReader r) base h = (None, sr, base', h')"
    and "\<not> isEOF sr"
    and "pending sr = xs @ (line, Some ErrLineTooLong) # ys"
    and "\<forall>d\<in>set xs \<union> set ys. acceptedDoc p d"
    and "0 < batchSize"
    and "reliableProcessor PB"
  shows "wrapError (errorText p) rd (Some ErrLineTooLong) =
           Some (InvalidInput \<lparr>TooLarge = True,
                                Message = ''event exceeded the permitted size.'',
                                Document = LatestLine rd\<rparr>) \<and>
         wrapError (errorText p) rd (Some (DecoderError ErrLineTooLong)) =
           Some (InvalidInput \<lparr>TooLarge = True,
                                Message = ''event exceeded the permitted size.'',
                                Document = LatestLine rd\<rparr>) \<and>
         (\<forall>base s rest. pending (reader s) = (line, Some ErrLineTooLong) # rest \<longrightarrow>
            readBatchIter p base s =
              Next (s\<lparr>reader := \<lparr>pending = rest, isEOF = False, latestLine = line\<rparr>,
                       result := LimitedAdd (errorsLimit p)
                         (InvalidInput \<lparr>TooLarge = True,
                            Message = ''event exceeded the permitted size.'',
                            Document = line\<rparr>) (result s)\<rparr>)) \<and>
         (\<exists>out. HandleStream p Admitted base r batchSize PB res q h = Some (Inr out) \<and>
            returned out = None \<and>
            Accepted (finalResult out) = Accepted res + int (length xs + length ys) \<and>
            length (Errors (finalResult out)) =
              cappedLength (errorsLimit p) (length (Errors res)) 1)"
proof (intro conjI allI impI)
  show "wrapError (errorText p) rd (Some ErrLineTooLong) =
           Some (InvalidInput \<lparr>TooLarge = True,
                                Message = ''event exceeded the permitted size.'',
                                Document = LatestLine rd\<rparr>)"
    by (rule wrapError_LineTooLong)
  show "wrapError (errorText p) rd (Some (DecoderError ErrLineTooLong)) =
           Some (InvalidInput \<lparr>TooLarge = True,
                                Message = ''event exceeded the permitted size.'',
                                Document = LatestLine rd\<rparr>)"
    by (rule wrapError_LineTooLong)
next
  fix base :: "'a APMEvent" and s :: "('a, 'b) batchState" and rest
  assume pd: "pending (reader s) = (line, Some ErrLineTooLong) # rest"
  let ?rd = "\<lparr>pending = rest, isEOF = False, latestLine = line\<rparr>"
  have ra: "ReadAhead (reader s) = (line, Some ErrLineTooLong, ?rd)"
    using ReadAhead_Cons[OF pd] by simp
  from readBatchIter_read_recorded[OF ra _ wrapError_LineTooLong(1), of p base]
  show "readBatchIter p base s =
              Next (s\<lparr>reader := ?rd,
                       result := LimitedAdd (errorsLimit p)
                         (InvalidInput \<lparr>TooLarge = True,
                            Message = ''event exceeded the permitted size.'',
                            Document = line\<rparr>) (result s)\<rparr>)"
    by (simp add: LatestLine_def)
next
  let ?bad = "(line, Some ErrLineTooLong)"
  have rj: "rejectedDoc p ?bad" by (rule rejected_LineTooLong)
  have nb: "\<not> acceptedDoc p ?bad" using accepted_not_rejected[of p ?bad] rj by blast
  have nr: "\<forall>d\<in>set xs \<union> set ys. \<not> rejectedDoc p d"
    using assms(4) accepted_not_rejected by blast
  have ben: "\<forall>d\<in>set (pending sr). benignDoc p d"
    using assms(3,4) rj by (auto simp: benignDoc_def)
  have fa: "length (filter (acceptedDoc p) (pending sr)) = length xs + length ys"
    using assms(3,4) nb by (simp add: filter_all)
  have fr: "length (filter (rejectedDoc p) (pending sr)) = 1"
    using assms(3) rj nr by (simp add: filter_none)
  from HandleStream_benign[OF assms(1,2) ben assms(5,6), of res q] fa fr
  show "\<exists>out. HandleStream p Admitted base r batchSize PB res q h = Some (Inr out) \<and>
            returned out = None \<and>
            Accepted (finalResult out) = Accepted res + int (length xs + length ys) \<and>
            length (Errors (finalResult out)) =
              cappedLength (errorsLimit p) (length (Errors res)) 1"
    by auto
qed

theorem oversize_document_witness:
  "readBatchIter exampleProcessor exampleBase
     (exampleState [(''{{{{'', Some ErrLineTooLong), (spanDocument, None)]) =
     Next \<lparr>reader = \<lparr>pending = [(spanDocument, None)], isEOF = False, latestLine = ''{{{{''\<rparr>,
           batch = [],
           result = \<lparr>Accepted = 0,
                      Errors = [InvalidInput \<lparr>TooLarge = True,
                                  Message = ''event exceeded the permitted size.'',
                                  Document = ''{{{{''\<rparr>]\<rparr>,
           heap = exampleStore\<rparr> \<and>
   (\<exists>out. HandleStream exampleProcessor Admitted exampleBase
            [(metadataDocument, None), (transactionDocument, None),
             (''{{{{'', Some ErrLineTooLong), (spanDocument, None)]
            1 exampleProcessBatch emptyResult [] exampleStore = Some (Inr out) \<and>
     returned out = None \<and> Accepted (finalResult out) = 2 \<and>
     length (Errors (finalResult out)) = 1)"
proof -
  let ?sr = "\<lparr>pending = [(transactionDocument, None), (''{{{{'', Some ErrLineTooLong),
                          (spanDocument, None)], isEOF = False,
              latestLine = metadataDocument\<rparr>"
  have 1: "\<not> isEOF ?sr" by simp
  have 2: "pending ?sr = [(transactionDocument, None)] @ (''{{{{'', Some ErrLineTooLong) #
           [(spanDocument, None)]" by simp
  have 3: "\<forall>d\<in>set [(transactionDocument, None)] \<union> set [(spanDocument, None)].
             acceptedDoc exampleProcessor d"
    using example_accepted by simp
  have 4: "(0::int) < 1" by simp
  note th = oversize_document[OF example_metadata[where base=exampleBase and h=exampleStore]
      1 2 3 4 example_reliable, where res=emptyResult and q="[]"]
  from th have it: "\<And>base s rest. pending (reader s) = (''{{{{'', Some ErrLineTooLong) # rest \<Longrightarrow>
            readBatchIter exampleProcessor base s =
              Next (s\<lparr>reader := \<lparr>pending = rest, isEOF = False, latestLine = ''{{{{''\<rparr>,
                       result := LimitedAdd (errorsLimit exampleProcessor)
                         (InvalidInput \<lparr>TooLarge = True,
                            Message = ''event exceeded the permitted size.'',
                            Document = ''{{{{''\<rparr>) (result s)\<rparr>)"
    by blast
  have a: "readBatchIter exampleProcessor exampleBase
     (exampleState [(''{{{{'', Some ErrLineTooLong), (spanDocument, None)]) =
     Next \<lparr>reader = \<lparr>pending = [(spanDocument, None)], isEOF = False, latestLine = ''{{{{''\<rparr>,
           batch = [],
           result = \<lparr>Accepted = 0,
                      Errors = [InvalidInput \<lparr>TooLarge = True,
                                  Message = ''event exceeded the permitted size.'',
                                  Document = ''{{{{''\<rparr>]\<rparr>,
           heap = exampleStore\<rparr>"
    by (subst it[of _ "[(spanDocument, None)]"])
       (simp_all add: exampleState_def getStreamReader_def emptyResult_def LimitedAdd_def
          exampleProcessor_def)
  from th have "\<exists>out. HandleStream exampleProcessor Admitted exampleBase
            [(metadataDocument, None), (transactionDocument, None),
             (''{{{{'', Some ErrLineTooLong), (spanDocument, None)]
            1 exampleProcessBatch emptyResult [] exampleStore = Some (Inr out) \<and>
     returned out = None \<and> Accepted (finalResult out) = 2 \<and>
     length (Errors (finalResult out)) = 1"
    by (simp add: emptyResult_def cappedLength_def exampleProcessor_def)
  with a show ?thesis by blast
qed

section \<open>Metadata\<close>

lemma readMetadata_failure:
  assumes "decodeMetadata p sr0 base h = (Some e, sr, base', h')"
  shows "\<exists>i. readMetadata p sr0 base h = (Some (InvalidInput i), sr, base', h') \<and>
             (e = EOF \<longrightarrow> i = \<lparr>TooLarge = False, Message = ''EOF while reading metadata'',
                                    Document = LatestLine sr\<rparr>)"
  using assms
  by (cases e) (auto simp: readMetadata_def wrapError_def Let_def split: error.splits)

text \<open>
  C5. Whenever the metadata decoder returns an error, \<^verbatim>\<open>readMetadata\<close> returns an
  \<^verbatim>\<open>InvalidInputError\<close> and \<^verbatim>\<open>HandleStream\<close> returns that very error at once: the
  result is the one it was given (no event is accepted) and the downstream
  processor is never called. When the metadata decoder's error is \<^verbatim>\<open>io.EOF\<close> (the
  input ended before any metadata line), the error returned has the message
  \<^verbatim>\<open>EOF while reading metadata\<close> and carries the reader's latest line.
\<close>

theorem metadata_failure_aborts:
  assumes "decodeMetadata p (getStreamReader r) base h = (Some e, sr, base', h')"
  shows "\<exists>i. readMetadata p (getStreamReader r) base h = (Some (InvalidInput i), sr, base', h') \<and>
             HandleStream p Admitted base r batchSize PB res q h =
               Some (Inr \<lparr>returned = Some (InvalidInput i), finalResult = res,
                          downstream = q, finalHeap = h'\<rparr>) \<and>
             (e = EOF \<longrightarrow> i = \<lparr>TooLarge = False, Message = ''EOF while reading metadata'',
                                    Document = LatestLine sr\<rparr>)"
proof -
  from readMetadata_failure[OF assms] obtain i where
    rm: "readMetadata p (getStreamReader r) base h = (Some (InvalidInput i), sr, base', h')"
    and m: "e = EOF \<longrightarrow> i = \<lparr>TooLarge = False, Message = ''EOF while reading metadata'',
                                    Document = LatestLine sr\<rparr>"
    by blast
  from rm have "HandleStream p Admitted base r batchSize PB res q h =
               Some (Inr \<lparr>returned = Some (InvalidInput i), finalResult = res,
                          downstream = q, finalHeap = h'\<rparr>)"
    by (simp add: HandleStream_def)
  with rm m show ?thesis by blast
qed

theorem metadata_failure_aborts_witness:
  "HandleStream exampleProcessor Admitted exampleBase [] 10 exampleProcessBatch emptyResult []
     exampleStore =
     Some (Inr \<lparr>returned = Some (InvalidInput \<lparr>TooLarge = False,
                                    Message = ''EOF while reading metadata'',
                                    Document = []\<rparr>),
                finalResult = \<lparr>Accepted = 0, Errors = []\<rparr>,
                downstream = [], finalHeap = exampleStore\<rparr>)"
proof -
  have dm: "decodeMetadata exampleProcessor (getStreamReader []) exampleBase exampleStore =
      (Some EOF, \<lparr>pending = [], isEOF = True, latestLine = []\<rparr>, exampleBase, exampleStore)"
    by (simp add: exampleProcessor_def exampleDecodeMetadata_def ReadAhead_def
        getStreamReader_def)
  from metadata_failure_aborts[OF dm, of 10 exampleProcessBatch emptyResult "[]"]
  show ?thesis by (auto simp: LatestLine_def emptyResult_def)
qed

section \<open>What every run of the loops guarantees\<close>

lemma ReadAhead_remaining:
  "ReadAhead sr = (body, err, rd) \<Longrightarrow> \<not> isEOF sr \<Longrightarrow> remaining rd < remaining sr"
  by (auto simp: ReadAhead_def remaining_def split: list.splits)

lemma ReadAhead_error_not_EOF:
  "ReadAhead sr = (body, Some e, rd) \<Longrightarrow> e \<noteq> EOF \<Longrightarrow> \<not> isEOF rd"
  by (auto simp: ReadAhead_def split: list.splits)

lemma readBatchIter_no_panic: "readBatchIter p base s \<noteq> Panicked pn"
proof -
  obtain body err rd where ra: "ReadAhead (reader s) = (body, err, rd)"
    by (cases "ReadAhead (reader s)")
  obtain t where t: "identifyEventType body = Inr t"
    using identifyEventType_returns by blast
  show ?thesis
    using ra t
    by (auto simp: readBatchIter_def Let_def split: option.splits prod.splits if_splits)
qed

lemma readBatchIter_Next:
  assumes "readBatchIter p base s = Next s1"
  shows "Accepted (result s1) = Accepted (result s) \<and> (\<exists>evs. batch s1 = batch s @ evs) \<and>
         (\<exists>body err. ReadAhead (reader s) = (body, err, reader s1))"
proof -
  obtain body err rd where ra: "ReadAhead (reader s) = (body, err, rd)"
    by (cases "ReadAhead (reader s)")
  obtain t where t: "identifyEventType body = Inr t"
    using identifyEventType_returns by blast
  show ?thesis
    using assms ra t
    by (auto simp: readBatchIter_def Let_def LimitedAdd_def
        split: option.splits prod.splits if_splits)
qed

lemma readBatchIter_Return:
  assumes "readBatchIter p base s = Return err s1"
  shows "\<exists>body e e'. ReadAhead (reader s) = (body, Some e, reader s1) \<and> e \<noteq> EOF \<and>
           wrapError (errorText p) (reader s1) (Some e) = Some e' \<and> err = Some e' \<and>
           asInvalidInput e' = None \<and> s1 = s\<lparr>reader := reader s1\<rparr>"
proof -
  obtain body err0 rd where ra: "ReadAhead (reader s) = (body, err0, rd)"
    by (cases "ReadAhead (reader s)")
  obtain t where t: "identifyEventType body = Inr t"
    using identifyEventType_returns by blast
  show ?thesis
  proof (cases "err0 \<noteq> None \<and> err0 \<noteq> Some EOF")
    case True
    then obtain e where e: "err0 = Some e" "e \<noteq> EOF" by auto
    from wrapError_Some[of "errorText p" rd e] obtain e' where
      w: "wrapError (errorText p) rd (Some e) = Some e'" by blast
    show ?thesis
    proof (cases "asInvalidInput e'")
      case None
      with assms ra e w have "err = Some e'" "s1 = s\<lparr>reader := rd\<rparr>"
        by (auto simp: readBatchIter_def Let_def)
      with ra e w None show ?thesis by simp
    next
      case (Some i)
      with assms ra e w show ?thesis by (simp add: readBatchIter_def Let_def)
    qed
  next
    case False
    with assms ra t show ?thesis
      by (auto simp: readBatchIter_def Let_def split: option.splits prod.splits if_splits)
  qed
qed

text \<open>What every run of the loop of \<open>readBatch\<close> guarantees.\<close>

lemma readBatchLoop_general:
  "(case readBatchLoop p base batchSize i s of
      Next s' \<Rightarrow>
        Accepted (result s') = Accepted (result s) \<and> length (batch s) \<le> length (batch s') \<and>
        remaining (reader s') \<le> remaining (reader s) \<and>
        (i < batchSize \<and> \<not> isEOF (reader s) \<longrightarrow> remaining (reader s') < remaining (reader s))
    | Return err s' \<Rightarrow>
        Accepted (result s') = Accepted (result s) \<and> length (batch s) \<le> length (batch s') \<and>
        remaining (reader s') \<le> remaining (reader s) \<and> \<not> isEOF (reader s') \<and>
        (\<exists>e. err = Some e \<and> e \<noteq> EOF \<and> asInvalidInput e = None)
    | Panicked pn \<Rightarrow> False)"
proof (induction p base batchSize i s rule: readBatchLoop.induct)
  case (1 p base batchSize i s)
  show ?case
  proof (cases "i < batchSize \<and> \<not> IsEOF (reader s)")
    case False
    then show ?thesis by (subst readBatchLoop.simps) (auto simp: IsEOF_def)
  next
    case True
    then have ne: "\<not> isEOF (reader s)" by (simp add: IsEOF_def)
    show ?thesis
    proof (cases "readBatchIter p base s")
      case (Next s1)
      from readBatchIter_Next[OF Next] obtain body err where
        a: "Accepted (result s1) = Accepted (result s)" and b: "length (batch s) \<le> length (batch s1)"
        and ra: "ReadAhead (reader s) = (body, err, reader s1)" by auto
      from ReadAhead_remaining[OF ra ne] have lt: "remaining (reader s1) < remaining (reader s)" .
      have eq: "readBatchLoop p base batchSize i s = readBatchLoop p base batchSize (i + 1) s1"
        using True Next by (subst readBatchLoop.simps) simp
      from "1.IH"[OF True Next] a b lt True ne show ?thesis
        unfolding eq by (auto split: flow.splits)
    next
      case (Return err s1)
      from readBatchIter_Return[OF Return] obtain body e e' where
        ra: "ReadAhead (reader s) = (body, Some e, reader s1)" and e: "e \<noteq> EOF"
        and w: "err = Some e'" "asInvalidInput e' = None"
          "wrapError (errorText p) (reader s1) (Some e) = Some e'"
        and s1: "s1 = s\<lparr>reader := reader s1\<rparr>" by blast
      have eq: "readBatchLoop p base batchSize i s = Return err s1"
        using True Return by (subst readBatchLoop.simps) simp
      have "e' \<noteq> EOF" using wrapError_not_EOF[OF e, of "errorText p" "reader s1"] w by auto
      moreover have "Accepted (result s1) = Accepted (result s)" "batch s1 = batch s"
        by (subst s1, simp)+
      ultimately show ?thesis
        unfolding eq using ReadAhead_error_not_EOF[OF ra e] ReadAhead_remaining[OF ra ne] w
        by simp
    next
      case (Panicked pn)
      with readBatchIter_no_panic show ?thesis by blast
    qed
  qed
qed

lemma readBatch_general:
  "\<exists>n sig s'. readBatch p base batchSize s = Inr (n, sig, s') \<and>
     n = int (length (batch s')) - int (length (batch s)) \<and> 0 \<le> n \<and>
     Accepted (result s') = Accepted (result s) \<and>
     (sig = Some EOF) = IsEOF (reader s') \<and>
     (\<forall>e. sig = Some e \<and> e \<noteq> EOF \<longrightarrow> asInvalidInput e = None) \<and>
     remaining (reader s') \<le> remaining (reader s) \<and>
     (sig = None \<and> 0 < batchSize \<longrightarrow> remaining (reader s') < remaining (reader s))"
proof (cases "readBatchLoop p base batchSize 0 s")
  case (Next s')
  with readBatchLoop_general[where p=p and base=base and batchSize=batchSize and i=0 and s=s]
  have g: "Accepted (result s') = Accepted (result s)" "length (batch s) \<le> length (batch s')"
    "remaining (reader s') \<le> remaining (reader s)"
    "0 < batchSize \<and> \<not> isEOF (reader s) \<longrightarrow> remaining (reader s') < remaining (reader s)"
    by auto
  have z: "isEOF (reader s) \<Longrightarrow> s' = s"
    using Next by (subst (asm) readBatchLoop.simps) (simp add: IsEOF_def)
  show ?thesis
  proof (cases "isEOF (reader s')")
    case True
    then have rb: "readBatch p base batchSize s =
        Inr (int (length (batch s')) - int (length (batch s)), Some EOF, s')"
      using Next by (simp add: readBatch_def IsEOF_def)
    show ?thesis
      unfolding rb using g True by (simp add: IsEOF_def)
  next
    case False
    then have rb: "readBatch p base batchSize s =
        Inr (int (length (batch s')) - int (length (batch s)), None, s')"
      using Next by (simp add: readBatch_def IsEOF_def)
    from False z have "\<not> isEOF (reader s)" by auto
    with g have "0 < batchSize \<longrightarrow> remaining (reader s') < remaining (reader s)" by simp
    then show ?thesis
      unfolding rb using g False by (simp add: IsEOF_def)
  qed
next
  case (Return err s')
  with readBatchLoop_general[where p=p and base=base and batchSize=batchSize and i=0 and s=s]
  obtain e where g: "Accepted (result s') = Accepted (result s)"
    "length (batch s) \<le> length (batch s')" "\<not> isEOF (reader s')"
    "err = Some e" "e \<noteq> EOF" "asInvalidInput e = None"
    "remaining (reader s') \<le> remaining (reader s)"
    by auto
  have rb: "readBatch p base batchSize s =
      Inr (int (length (batch s')) - int (length (batch s)), Some e, s')"
    using Return g by (simp add: readBatch_def)
  show ?thesis
    unfolding rb using g by (simp add: IsEOF_def)
next
  case (Panicked pn)
  with readBatchLoop_general[where p=p and base=base and batchSize=batchSize and i=0 and s=s] show ?thesis by simp
qed

lemma handleLoop_returns:
  fixes p :: "('x, 'v) Processor" and PB :: "('x, 'v, 'q) batchProcessor"
  assumes "0 < batchSize"
  shows "\<exists>out. handleLoop p PB base batchSize sr res q h = Some (Inr out)"
proof (induction "remaining sr" arbitrary: sr res q h rule: less_induct)
  case less
  let ?s0 = "\<lparr>reader = sr, batch = [], result = res, heap = h\<rparr> :: ('x, 'v) batchState"
  from readBatch_general[of p base batchSize ?s0] obtain n sig s' where
    rb: "readBatch p base batchSize ?s0 = Inr (n, sig, s')"
    and dec: "sig = None \<and> 0 < batchSize \<longrightarrow> remaining (reader s') < remaining sr"
    by auto
  have rec: "sig = None \<Longrightarrow> \<exists>out. handleLoop p PB base batchSize (reader s') res' q' h' = Some (Inr out)"
    for res' q' h'
    using less.hyps[of "reader s'" res' q' h'] dec assms by simp
  show ?case
  proof (cases "0 < n")
    case True
    obtain perr b' q' h' where pb: "PB q (batch s') (heap s') = (perr, b', q', h')"
      by (cases "PB q (batch s') (heap s')")
    show ?thesis
    proof (cases perr)
      case None
      from handleLoop_forward_ok[where PB=PB and q=q, OF rb True pb[unfolded None]]
        rec[of "AddAccepted (int (length b')) (result s')" q' h']
      show ?thesis by (cases "sig = Some EOF"; cases "sig = None") auto
    next
      case (Some err)
      from handleLoop_forward_fail[where PB=PB and q=q, OF rb True pb[unfolded Some]]
      show ?thesis by simp
    qed
  next
    case False
    from handleLoop_nothing[where PB=PB and q=q, OF rb False] rec[of "result s'" q "heap s'"]
    show ?thesis by (cases "sig = Some EOF"; cases "sig = None") auto
  qed
qed

lemma handleLoop_accepted_mono:
  fixes p :: "('x, 'v) Processor" and PB :: "('x, 'v, 'q) batchProcessor"
  assumes "handleLoop p PB base batchSize sr res q h = Some y"
  shows "\<forall>out. y = Inr out \<longrightarrow> Accepted res \<le> Accepted (finalResult out)"
proof (rule handleLoop.raw_induct[where P = "\<lambda>p PB base batchSize sr res q h y.
          \<forall>out. y = Inr out \<longrightarrow> Accepted res \<le> Accepted (finalResult out)", OF _ assms])
  fix f :: "('x, 'v) Processor \<Rightarrow> ('x, 'v, 'q) batchProcessor \<Rightarrow> 'x APMEvent \<Rightarrow> int
     \<Rightarrow> streamReader \<Rightarrow> Result \<Rightarrow> 'q \<Rightarrow> 'v store \<Rightarrow> (panic + ('v, 'q) outcome) option"
    and p :: "('x, 'v) Processor" and PB :: "('x, 'v, 'q) batchProcessor"
    and base batchSize sr res q h pa
  assume IH: "\<And>p PB base batchSize sr res q h y. f p PB base batchSize sr res q h = Some y \<Longrightarrow>
        \<forall>out. y = Inr out \<longrightarrow> Accepted res \<le> Accepted (finalResult out)"
  assume eq: "(case readBatch p base batchSize
            \<lparr>reader = sr, batch = [], result = res, heap = h\<rparr> of
      Inl pn \<Rightarrow> Some (Inl pn)
      | Inr (n, readErr, s) \<Rightarrow>
          case if 0 < n
               then case PB q (batch s) (heap s) of
                    (None, b', q', h') \<Rightarrow>
                      Inr (AddAccepted (int (length b')) (result s), q', h')
                    | (Some err, b', q', h') \<Rightarrow>
                        Inl \<lparr>returned = Some err, finalResult = result s,
                               downstream = q', finalHeap = h'\<rparr>
               else Inr (result s, q, heap s) of
          Inl out \<Rightarrow> Some (Inr out)
          | Inr (res', q', h') \<Rightarrow>
              if readErr = Some EOF
              then Some
                    (Inr \<lparr>returned = None, finalResult = res',
                            downstream = q', finalHeap = h'\<rparr>)
              else if readErr \<noteq> None
                   then Some
                         (Inr \<lparr>returned = readErr, finalResult = res',
                                 downstream = q', finalHeap = h'\<rparr>)
                   else f p PB base batchSize
                         (reader s) res' q' h') =
     Some pa"
  let ?s0 = "\<lparr>reader = sr, batch = [], result = res, heap = h\<rparr> :: ('x, 'v) batchState"
  from readBatch_general[of p base batchSize ?s0] obtain n sig s' where
    rb: "readBatch p base batchSize ?s0 = Inr (n, sig, s')"
    and ac: "Accepted (result s') = Accepted res"
    by auto
  show "\<forall>out. pa = Inr out \<longrightarrow> Accepted res \<le> Accepted (finalResult out)"
  proof (cases "0 < n")
    case True
    obtain perr b' q' h' where pb: "PB q (batch s') (heap s') = (perr, b', q', h')"
      by (cases "PB q (batch s') (heap s')")
    show ?thesis
    proof (cases perr)
      case None
      have le: "Accepted res \<le> Accepted (AddAccepted (int (length b')) (result s'))"
        using ac by (simp add: AddAccepted_def)
      show ?thesis
      proof (cases "sig = None")
        case True
        with eq rb \<open>0 < n\<close> pb None
        have "f p PB base batchSize (reader s') (AddAccepted (int (length b')) (result s')) q' h'
              = Some pa" by simp
        from IH[OF this] le show ?thesis by auto
      next
        case False
        with eq rb \<open>0 < n\<close> pb None le show ?thesis by (auto split: if_splits)
      qed
    next
      case (Some err)
      with eq rb True pb ac show ?thesis by auto
    qed
  next
    case False
    show ?thesis
    proof (cases "sig = None")
      case True
      with eq rb False have "f p PB base batchSize (reader s') (result s') q (heap s') = Some pa"
        by simp
      from IH[OF this] ac show ?thesis by auto
    next
      case F: False
      with eq rb False ac show ?thesis by (auto split: if_splits)
    qed
  qed
qed

lemmas model_defs =
  HandleStream_def readMetadata_def readBatch_def readBatchIter_def ReadAhead_def IsEOF_def
  LatestLine_def copyEvent_def Clone_def mapAt_def decodeSwitch_def goString_def
  identifyEventType_def sliceFrom_def sliceTo_def LimitedAdd_def AddAccepted_def wrapError_def

lemma example_recorded_run:
  "\<exists>hh ev. HandleStream exampleProcessor Admitted exampleBase
     [(metadataDocument, None), (transactionDocument, None), (spanDocument, None),
      (transactionDocument, None)] 2
     (recording exampleProcessBatch) emptyResult ([], []) exampleStore =
   Some (Inr \<lparr>returned = None, finalResult = \<lparr>Accepted = 3, Errors = []\<rparr>,
              downstream = (ev, [2, 1]), finalHeap = hh\<rparr>)"
  by (simp add: model_defs example_defs eventType_defs document_defs recording_def
      handleLoop.simps readBatchLoop.simps)

lemma handleLoop_recording:
  fixes p :: "('x, 'v) Processor" and PB :: "('x, 'v, 'q) batchProcessor"
  assumes "handleLoop p (recording PB) base batchSize sr res ql h = Some y"
  shows "\<forall>out. y = Inr out \<longrightarrow>
           (\<exists>log'. snd (downstream out) = snd ql @ log' \<and>
              Accepted (finalResult out) = Accepted res + sum_list (map int log'))"
proof -
  have "\<forall>PB0 :: ('x, 'v, 'q) batchProcessor. recording PB = recording PB0 \<longrightarrow>
          (\<forall>out. y = Inr out \<longrightarrow>
             (\<exists>log'. snd (downstream out) = snd ql @ log' \<and>
                Accepted (finalResult out) = Accepted res + sum_list (map int log')))"
  proof (rule handleLoop.raw_induct[where P = "\<lambda>p PB' base batchSize sr res ql h y.
          \<forall>PB0 :: ('x, 'v, 'q) batchProcessor. PB' = recording PB0 \<longrightarrow>
            (\<forall>out. y = Inr out \<longrightarrow>
               (\<exists>log'. snd (downstream out) = snd ql @ log' \<and>
                  Accepted (finalResult out) = Accepted res + sum_list (map int log')))",
        OF _ assms])
    fix f :: "('x, 'v) Processor \<Rightarrow> ('x, 'v, 'q \<times> nat list) batchProcessor \<Rightarrow> 'x APMEvent \<Rightarrow> int
       \<Rightarrow> streamReader \<Rightarrow> Result \<Rightarrow> 'q \<times> nat list \<Rightarrow> 'v store
       \<Rightarrow> (panic + ('v, 'q \<times> nat list) outcome) option"
      and p :: "('x, 'v) Processor" and PB' :: "('x, 'v, 'q \<times> nat list) batchProcessor"
      and base batchSize sr res ql h pa
    assume IH: "\<And>p PB' base batchSize sr res ql h y. f p PB' base batchSize sr res ql h = Some y \<Longrightarrow>
        \<forall>PB0 :: ('x, 'v, 'q) batchProcessor. PB' = recording PB0 \<longrightarrow>
          (\<forall>out. y = Inr out \<longrightarrow>
             (\<exists>log'. snd (downstream out) = snd ql @ log' \<and>
                Accepted (finalResult out) = Accepted res + sum_list (map int log')))"
    assume eq: "(case readBatch p base batchSize
            \<lparr>reader = sr, batch = [], result = res, heap = h\<rparr> of
      Inl pn \<Rightarrow> Some (Inl pn)
      | Inr (n, readErr, s) \<Rightarrow>
          case if 0 < n
               then case PB' ql (batch s) (heap s) of
                    (None, b', q', h') \<Rightarrow>
                      Inr (AddAccepted (int (length b')) (result s), q', h')
                    | (Some err, b', q', h') \<Rightarrow>
                        Inl \<lparr>returned = Some err, finalResult = result s,
                               downstream = q', finalHeap = h'\<rparr>
               else Inr (result s, ql, heap s) of
          Inl out \<Rightarrow> Some (Inr out)
          | Inr (res', q', h') \<Rightarrow>
              if readErr = Some EOF
              then Some
                    (Inr \<lparr>returned = None, finalResult = res',
                            downstream = q', finalHeap = h'\<rparr>)
              else if readErr \<noteq> None
                   then Some
                         (Inr \<lparr>returned = readErr, finalResult = res',
                                 downstream = q', finalHeap = h'\<rparr>)
                   else f p PB' base batchSize
                         (reader s) res' q' h') =
     Some pa"
    let ?s0 = "\<lparr>reader = sr, batch = [], result = res, heap = h\<rparr> :: ('x, 'v) batchState"
    from readBatch_general[of p base batchSize ?s0] obtain n sig s' where
      rb: "readBatch p base batchSize ?s0 = Inr (n, sig, s')"
      and ac: "Accepted (result s') = Accepted res"
      by auto
    show "\<forall>PB0 :: ('x, 'v, 'q) batchProcessor. PB' = recording PB0 \<longrightarrow>
          (\<forall>out. pa = Inr out \<longrightarrow>
             (\<exists>log'. snd (downstream out) = snd ql @ log' \<and>
                Accepted (finalResult out) = Accepted res + sum_list (map int log')))"
    proof (intro allI impI)
      fix PB0 :: "('x, 'v, 'q) batchProcessor" and out
      assume r: "PB' = recording PB0" and pa: "pa = Inr out"
      show "\<exists>log'. snd (downstream out) = snd ql @ log' \<and>
                Accepted (finalResult out) = Accepted res + sum_list (map int log')"
      proof (cases "0 < n")
        case True
        obtain perr b' q' h' where pb: "PB0 (fst ql) (batch s') (heap s') = (perr, b', q', h')"
          by (cases "PB0 (fst ql) (batch s') (heap s')")
        show ?thesis
        proof (cases perr)
          case None
          then have pr: "PB' ql (batch s') (heap s') = (None, b', (q', snd ql @ [length b']), h')"
            using pb r by (simp add: recording_def)
          let ?res' = "AddAccepted (int (length b')) (result s')"
          show ?thesis
          proof (cases "sig = None")
            case True
            with eq rb \<open>0 < n\<close> pr
            have "f p PB' base batchSize (reader s') ?res' (q', snd ql @ [length b']) h' = Some pa"
              by simp
            from IH[OF this] r pa obtain log' where
              "snd (downstream out) = (snd ql @ [length b']) @ log'"
              "Accepted (finalResult out) = Accepted ?res' + sum_list (map int log')"
              by auto
            then show ?thesis
              using ac by (intro exI[of _ "length b' # log'"]) (simp add: AddAccepted_def)
          next
            case False
            with eq rb \<open>0 < n\<close> pr pa ac show ?thesis
              by (intro exI[of _ "[length b']"]) (auto simp: AddAccepted_def split: if_splits)
          qed
        next
          case (Some err)
          then have pr: "PB' ql (batch s') (heap s') = (Some err, b', (q', snd ql), h')"
            using pb r by (simp add: recording_def)
          with eq rb True pa ac show ?thesis by (intro exI[of _ "[]"]) auto
        qed
      next
        case False
        show ?thesis
        proof (cases "sig = None")
          case True
          with eq rb False have "f p PB' base batchSize (reader s') (result s') ql (heap s') = Some pa"
            by simp
          from IH[OF this] r pa ac show ?thesis by auto
        next
          case F: False
          with eq rb False pa ac show ?thesis
            by (intro exI[of _ "[]"]) (auto split: if_splits)
        qed
      qed
    qed
  qed
  then show ?thesis by blast
qed

text \<open>
  C2. \<^verbatim>\<open>HandleStream\<close> returns for every positive batch size, and the accepted count of
  the result it leaves is never below the one it was given. With the downstream
  processor instrumented to log the length of each batch for which \<^verbatim>\<open>ProcessBatch\<close>
  returned no error, the accepted count at the end is the count at the start plus
  the sum of the logged lengths: it grows by exactly the lengths of the batches
  handed over with success. When \<^verbatim>\<open>ProcessBatch\<close> returns an error for a batch, the
  loop returns that error at once, with the result as \<^verbatim>\<open>readBatch\<close> left it, whose
  accepted count is the one before the batch.
\<close>

theorem accepted_count:
  fixes p :: "('x, 'v) Processor" and PB :: "('x, 'v, 'q) batchProcessor"
  shows
  "(0 < batchSize \<longrightarrow>
      (\<exists>out. HandleStream p adm base r batchSize PB res q h = Some (Inr out))) \<and>
   (\<forall>out. HandleStream p adm base r batchSize PB res q h = Some (Inr out) \<longrightarrow>
      Accepted res \<le> Accepted (finalResult out)) \<and>
   (\<forall>out. HandleStream p adm base r batchSize (recording PB) res (q, []) h = Some (Inr out) \<longrightarrow>
      Accepted (finalResult out) =
        Accepted res + sum_list (map int (snd (downstream out)))) \<and>
   (\<forall>sr n sig s err b' q' h'.
      readBatch p base batchSize \<lparr>reader = sr, batch = [], result = res, heap = h\<rparr>
        = Inr (n, sig, s) \<and>
      0 < n \<and> PB q (batch s) (heap s) = (Some err, b', q', h') \<longrightarrow>
      handleLoop p PB base batchSize sr res q h =
        Some (Inr \<lparr>returned = Some err, finalResult = result s, downstream = q',
                   finalHeap = h'\<rparr>) \<and>
      Accepted (result s) = Accepted res)"
proof (intro conjI allI impI)
  assume bs: "0 < batchSize"
  show "\<exists>out. HandleStream p adm base r batchSize PB res q h = Some (Inr out)"
  proof (cases adm)
    case Admitted
    obtain merr sr base' h' where rm:
      "readMetadata p (getStreamReader r) base h = (merr, sr, base', h')"
      by (cases "readMetadata p (getStreamReader r) base h")
    show ?thesis
      using Admitted rm handleLoop_returns[OF bs, of p PB base' sr res q h']
      by (cases merr) (auto simp: HandleStream_def)
  next
    case (Cancelled cerr)
    then show ?thesis by (simp add: HandleStream_def)
  qed
next
  fix out
  assume hs: "HandleStream p adm base r batchSize PB res q h = Some (Inr out)"
  show "Accepted res \<le> Accepted (finalResult out)"
  proof (cases adm)
    case Admitted
    obtain merr sr base' h' where rm:
      "readMetadata p (getStreamReader r) base h = (merr, sr, base', h')"
      by (cases "readMetadata p (getStreamReader r) base h")
    show ?thesis
    proof (cases merr)
      case None
      with hs Admitted rm have "handleLoop p PB base' batchSize sr res q h' = Some (Inr out)"
        by (simp add: HandleStream_def)
      from handleLoop_accepted_mono[OF this] show ?thesis by simp
    next
      case (Some e)
      with hs Admitted rm show ?thesis by (auto simp: HandleStream_def)
    qed
  next
    case (Cancelled cerr)
    with hs show ?thesis by (auto simp: HandleStream_def)
  qed
next
  fix out
  assume hs: "HandleStream p adm base r batchSize (recording PB) res (q, []) h = Some (Inr out)"
  show "Accepted (finalResult out) = Accepted res + sum_list (map int (snd (downstream out)))"
  proof (cases adm)
    case Admitted
    obtain merr sr base' h' where rm:
      "readMetadata p (getStreamReader r) base h = (merr, sr, base', h')"
      by (cases "readMetadata p (getStreamReader r) base h")
    show ?thesis
    proof (cases merr)
      case None
      with hs Admitted rm
      have "handleLoop p (recording PB) base' batchSize sr res (q, []) h' = Some (Inr out)"
        by (simp add: HandleStream_def)
      from handleLoop_recording[OF this] show ?thesis by simp
    next
      case (Some e)
      with hs Admitted rm show ?thesis by (auto simp: HandleStream_def)
    qed
  next
    case (Cancelled cerr)
    with hs show ?thesis by (auto simp: HandleStream_def)
  qed
next
  fix sr n sig s err b' q' h'
  assume a: "readBatch p base batchSize \<lparr>reader = sr, batch = [], result = res, heap = h\<rparr>
        = Inr (n, sig, s) \<and>
      0 < n \<and> PB q (batch s) (heap s) = (Some err, b', q', h')"
  then show "handleLoop p PB base batchSize sr res q h =
        Some (Inr \<lparr>returned = Some err, finalResult = result s, downstream = q',
                   finalHeap = h'\<rparr>)"
    using handleLoop_forward_fail[where PB=PB and q=q] by blast
  from a readBatch_general[of p base batchSize "\<lparr>reader = sr, batch = [], result = res, heap = h\<rparr>"]
  show "Accepted (result s) = Accepted res" by auto
qed

theorem accepted_count_witness:
  "(\<exists>out. HandleStream exampleProcessor Admitted exampleBase
       [(metadataDocument, None), (transactionDocument, None), (spanDocument, None),
        (transactionDocument, None)] 2
       exampleProcessBatch emptyResult [] exampleStore = Some (Inr out) \<and>
       Accepted emptyResult \<le> Accepted (finalResult out)) \<and>
   (\<exists>ev hh. HandleStream exampleProcessor Admitted exampleBase
       [(metadataDocument, None), (transactionDocument, None), (spanDocument, None),
        (transactionDocument, None)] 2
       (recording exampleProcessBatch) emptyResult ([], []) exampleStore =
     Some (Inr \<lparr>returned = None, finalResult = \<lparr>Accepted = 3, Errors = []\<rparr>,
                downstream = (ev, [2, 1]), finalHeap = hh\<rparr>)) \<and>
   Accepted \<lparr>Accepted = 3, Errors = []\<rparr> = Accepted emptyResult + sum_list (map int [2, 1]) \<and>
   (\<exists>hh. handleLoop exampleProcessor exampleFailingProcessBatch exampleBase 1
       (getStreamReader [(transactionDocument, None), (spanDocument, None)]) emptyResult []
       exampleStore =
     Some (Inr \<lparr>returned = Some (ErrOther ''queue is full''), finalResult = emptyResult,
                downstream = [], finalHeap = hh\<rparr>))"
proof -
  let ?r = "[(metadataDocument, None), (transactionDocument, None), (spanDocument, None),
        (transactionDocument, None)]"
  note th = accepted_count[where batchSize=2 and p=exampleProcessor and adm=Admitted
      and base=exampleBase and r="?r" and PB=exampleProcessBatch and res=emptyResult
      and q="[]" and h=exampleStore]
  have bs: "(0::int) < 2" by simp
  from th bs obtain out where
    o: "HandleStream exampleProcessor Admitted exampleBase ?r 2 exampleProcessBatch emptyResult []
          exampleStore = Some (Inr out)"
    by blast
  with th have le: "Accepted emptyResult \<le> Accepted (finalResult out)" by blast
  obtain ev hh where e: "HandleStream exampleProcessor Admitted exampleBase ?r 2
       (recording exampleProcessBatch) emptyResult ([], []) exampleStore =
     Some (Inr \<lparr>returned = None, finalResult = \<lparr>Accepted = 3, Errors = []\<rparr>,
                downstream = (ev, [2, 1]), finalHeap = hh\<rparr>)"
    using example_recorded_run by blast
  let ?out = "\<lparr>returned = None, finalResult = \<lparr>Accepted = 3, Errors = []\<rparr>,
                downstream = (ev, [2::nat, 1]), finalHeap = hh\<rparr>"
  from th e have "Accepted (finalResult ?out) =
      Accepted emptyResult + sum_list (map int (snd (downstream ?out)))"
    by blast
  then have s: "Accepted \<lparr>Accepted = 3, Errors = []\<rparr> =
      Accepted emptyResult + sum_list (map int [2, 1])"
    by simp
  note th2 = accepted_count[where batchSize=1 and p=exampleProcessor and adm=Admitted
      and base=exampleBase and r="[]" and PB=exampleFailingProcessBatch and res=emptyResult
      and q="[]" and h=exampleStore]
  obtain s1 where rb: "readBatch exampleProcessor exampleBase 1
      \<lparr>reader = getStreamReader [(transactionDocument, None), (spanDocument, None)],
        batch = [], result = emptyResult, heap = exampleStore\<rparr> = Inr (1, None, s1)"
    and rs: "result s1 = emptyResult"
    by (simp add: model_defs example_defs eventType_defs document_defs readBatchLoop.simps)
  have pb: "exampleFailingProcessBatch [] (batch s1) (heap s1) =
      (Some (ErrOther ''queue is full''), batch s1, [], heap s1)"
    by (simp add: exampleFailingProcessBatch_def)
  have n: "(0::int) < 1" by simp
  from th2 rb n pb have "handleLoop exampleProcessor exampleFailingProcessBatch exampleBase 1
       (getStreamReader [(transactionDocument, None), (spanDocument, None)]) emptyResult []
       exampleStore =
     Some (Inr \<lparr>returned = Some (ErrOther ''queue is full''), finalResult = result s1,
                downstream = [], finalHeap = heap s1\<rparr>)"
    by blast
  with rs have f: "\<exists>hh. handleLoop exampleProcessor exampleFailingProcessBatch exampleBase 1
       (getStreamReader [(transactionDocument, None), (spanDocument, None)]) emptyResult []
       exampleStore =
     Some (Inr \<lparr>returned = Some (ErrOther ''queue is full''), finalResult = emptyResult,
                downstream = [], finalHeap = hh\<rparr>)"
    by auto
  from o le e s f show ?thesis by blast
qed

section \<open>Errors inside a pass of the batch loop\<close>

lemma unrecoverable_wrapError:
  "unrecoverable e \<Longrightarrow>
   wrapError ext rd (Some e) = Some e \<and> asInvalidInput e = None \<and> e \<noteq> EOF"
  by (cases e) (auto simp: unrecoverable_def wrapError_def Let_def)

lemma recoverable_wrapError:
  "e \<noteq> EOF \<Longrightarrow> \<not> unrecoverable e \<Longrightarrow>
   \<exists>e'. wrapError ext rd (Some e) = Some e' \<and> asInvalidInput e' \<noteq> None"
  by (cases e) (auto simp: unrecoverable_def wrapError_def Let_def)

lemma readBatchIter_benign:
  assumes "pending (reader s) = d # rest" "benignDoc p d"
  shows "\<exists>s1. readBatchIter p base s = Next s1 \<and> pending (reader s1) = rest \<and>
           \<not> isEOF (reader s1) \<and>
           length (batch s1) = length (batch s) + (if acceptedDoc p d then 1 else 0) \<and>
           Accepted (result s1) = Accepted (result s)"
proof -
  from assms(2) consider (a) "acceptedDoc p d" | (r) "rejectedDoc p d" | (b) "blankLine d"
    unfolding benignDoc_def by blast
  then show ?thesis
  proof cases
    case a
    with readBatchIter_accepted[OF assms(1) a, of base] show ?thesis by auto
  next
    case r
    from accepted_not_rejected[of p d] r have na: "\<not> acceptedDoc p d" by blast
    from readBatchIter_rejected[OF assms(1) r, of base] obtain s1 e where
      "readBatchIter p base s = Next s1" "pending (reader s1) = rest"
      "\<not> isEOF (reader s1)" "batch s1 = batch s"
      "result s1 = LimitedAdd (errorsLimit p) e (result s)" by blast
    then show ?thesis using na by (auto simp: LimitedAdd_def)
  next
    case b
    with readBatchIter_blankLine[OF assms(1) b, of p base] blank_not_accepted[OF b, of p]
    show ?thesis by auto
  qed
qed

lemma readBatchLoop_fatal_read:
  assumes "\<forall>d\<in>set xs. benignDoc p d" "pending (reader s) = xs @ (body, Some e) # ys"
    "\<not> isEOF (reader s)" "unrecoverable e" "i + int (length xs) < batchSize"
  shows "\<exists>s'. readBatchLoop p base batchSize i s = Return (Some e) s' \<and>
           reader s' = \<lparr>pending = ys, isEOF = False, latestLine = body\<rparr> \<and>
           length (batch s') = length (batch s) + length (filter (acceptedDoc p) xs) \<and>
           Accepted (result s') = Accepted (result s)"
  using assms
proof (induction xs arbitrary: i s)
  case Nil
  let ?rd = "\<lparr>pending = ys, isEOF = False, latestLine = body\<rparr>"
  from unrecoverable_wrapError[OF Nil.prems(4)] have
    w: "wrapError (errorText p) ?rd (Some e) = Some e" and ai: "asInvalidInput e = None"
    and ne: "e \<noteq> EOF" by auto
  have ra: "ReadAhead (reader s) = (body, Some e, ?rd)"
    using ReadAhead_Cons[of "reader s" body "Some e" ys] Nil.prems(2) ne by simp
  from readBatchIter_read_fatal[OF ra ne w ai]
  have it: "readBatchIter p base s = Return (Some e) (s\<lparr>reader := ?rd\<rparr>)" .
  have "readBatchLoop p base batchSize i s = Return (Some e) (s\<lparr>reader := ?rd\<rparr>)"
    using Nil.prems(3,5) it by (subst readBatchLoop.simps) (simp add: IsEOF_def)
  then show ?case by simp
next
  case (Cons d xs)
  from Cons.prems have pd: "pending (reader s) = d # (xs @ (body, Some e) # ys)"
    and bd: "benignDoc p d" and lt: "i < batchSize" by auto
  from readBatchIter_benign[OF pd bd, of base] obtain s1 where
    it: "readBatchIter p base s = Next s1"
    and p1: "pending (reader s1) = xs @ (body, Some e) # ys"
    and e1: "\<not> isEOF (reader s1)"
    and b1: "length (batch s1) = length (batch s) + (if acceptedDoc p d then 1 else 0)"
    and a1: "Accepted (result s1) = Accepted (result s)"
    by blast
  from Cons.prems have "\<forall>d\<in>set xs. benignDoc p d" "(i + 1) + int (length xs) < batchSize"
    by auto
  from Cons.IH[OF this(1) p1 e1 Cons.prems(4) this(2)] obtain s' where
    l: "readBatchLoop p base batchSize (i + 1) s1 = Return (Some e) s'"
    and r: "reader s' = \<lparr>pending = ys, isEOF = False, latestLine = body\<rparr>"
      "length (batch s') = length (batch s1) + length (filter (acceptedDoc p) xs)"
      "Accepted (result s') = Accepted (result s1)"
    by blast
  have "readBatchLoop p base batchSize i s = Return (Some e) s'"
    using lt Cons.prems(3) it l by (subst readBatchLoop.simps) (simp add: IsEOF_def)
  with r b1 a1 show ?case by auto
qed

text \<open>
  C3, as stated, fails on the code. The span decoder of the example below returns
  an error that is no \<^verbatim>\<open>InvalidInputError\<close>; \<^verbatim>\<open>readBatch\<close> does not propagate it: it
  records it, decodes the next document as well, and returns the count 1 with a nil
  error.
\<close>

theorem decoder_error_counterexample:
  "asInvalidInput (ErrOther ''internal failure'') = None \<and>
   readBatch exampleBrokenProcessor exampleBase 2
     (exampleState [(spanDocument, None), (transactionDocument, None)]) =
     Inr (1, None,
          \<lparr>reader = \<lparr>pending = [], isEOF = False, latestLine = transactionDocument\<rparr>,
            batch = [exampleEvent 2 transactionDocument],
            result = \<lparr>Accepted = 0,
                       Errors = [InvalidInput \<lparr>TooLarge = False, Message = ''internal failure'',
                                   Document = spanDocument\<rparr>]\<rparr>,
            heap = [Map.empty, Map.empty, [''doc'' \<mapsto> transactionDocument]]\<rparr>)"
  by (simp add: model_defs example_defs eventType_defs document_defs readBatchLoop.simps
      exampleBrokenProcessor_def exampleBrokenDecode_def exampleEvent_def)

text \<open>
  C3, amended. An error of the line-read step, other than \<^verbatim>\<open>io.EOF\<close>, that is not
  classified as an \<^verbatim>\<open>InvalidInputError\<close> is propagated at once: after the documents
  \<open>xs\<close> (accepted, rejected or blank, fewer than the batch size), \<^verbatim>\<open>readBatch\<close> returns
  that error with the count of the events appended so far and leaves the documents
  after the failed read unread; \<^verbatim>\<open>HandleStream\<close>'s loop then forwards those events and
  returns the error. An error returned by a per-kind decoder, other than \<^verbatim>\<open>io.EOF\<close>,
  is never propagated: whatever its type, the loop body records it as an
  \<^verbatim>\<open>InvalidInputError\<close> through \<^verbatim>\<open>LimitedAdd\<close> and goes on with the next document.
\<close>

theorem read_error_propagation:
  fixes p :: "('x, 'v) Processor" and PB :: "('x, 'v, 'q) batchProcessor"
  assumes "\<forall>d\<in>set xs. benignDoc p d"
    and "pending (reader s) = xs @ (body, Some e) # ys"
    and "\<not> isEOF (reader s)"
    and "unrecoverable e"
    and "int (length xs) < batchSize"
    and "reliableProcessor PB"
  shows
    "(\<exists>s'. readBatch p base batchSize s =
              Inr (int (length (filter (acceptedDoc p) xs)), Some e, s') \<and>
            reader s' = \<lparr>pending = ys, isEOF = False, latestLine = body\<rparr> \<and>
            length (batch s') = length (batch s) + length (filter (acceptedDoc p) xs)) \<and>
     (\<exists>out. handleLoop p PB base batchSize (reader s) (result s) q (heap s) = Some (Inr out) \<and>
            returned out = Some e \<and>
            Accepted (finalResult out) =
              Accepted (result s) + int (length (filter (acceptedDoc p) xs))) \<and>
     (\<forall>s0 doc err rd t input h1 evs de h2.
        ReadAhead (reader s0) = (doc, err, rd) \<and> (err = None \<or> err = Some EOF) \<and> doc \<noteq> [] \<and>
        identifyEventType doc = Inr t \<and> copyEvent (heap s0) base = (input, h1) \<and>
        decodeSwitch p (goString t) rd input h1 = (evs, Some de, h2) \<and> de \<noteq> EOF
        \<longrightarrow> readBatchIter p base s0 =
              Next (s0\<lparr>reader := rd, batch := batch s0 @ evs, heap := h2,
                        result := LimitedAdd (errorsLimit p)
                          (InvalidInput \<lparr>TooLarge = False,
                             Message = Error (errorText p) de,
                             Document = doc\<rparr>) (result s0)\<rparr>))"
proof (intro conjI allI impI)
  have fatal: "\<exists>s'. readBatch p base batchSize s0 =
              Inr (int (length (filter (acceptedDoc p) xs)), Some e, s') \<and>
            reader s' = \<lparr>pending = ys, isEOF = False, latestLine = body\<rparr> \<and>
            length (batch s') = length (batch s0) + length (filter (acceptedDoc p) xs) \<and>
            Accepted (result s') = Accepted (result s0)"
    if "pending (reader s0) = xs @ (body, Some e) # ys" "\<not> isEOF (reader s0)"
    for s0 :: "('x, 'v) batchState"
  proof -
    from assms(5) have "0 + int (length xs) < batchSize" by simp
    from readBatchLoop_fatal_read[OF assms(1) that assms(4) this, of base] obtain s' where
      l: "readBatchLoop p base batchSize 0 s0 = Return (Some e) s'"
      and r: "reader s' = \<lparr>pending = ys, isEOF = False, latestLine = body\<rparr>"
        "length (batch s') = length (batch s0) + length (filter (acceptedDoc p) xs)"
        "Accepted (result s') = Accepted (result s0)"
      by blast
    from l r show ?thesis by (intro exI[of _ s']) (simp add: readBatch_def)
  qed
  from fatal[OF assms(2,3)]
  show "\<exists>s'. readBatch p base batchSize s =
              Inr (int (length (filter (acceptedDoc p) xs)), Some e, s') \<and>
            reader s' = \<lparr>pending = ys, isEOF = False, latestLine = body\<rparr> \<and>
            length (batch s') = length (batch s) + length (filter (acceptedDoc p) xs)"
    by blast
  let ?s0 = "\<lparr>reader = reader s, batch = [], result = result s, heap = heap s\<rparr>
    :: ('x, 'v) batchState"
  let ?n = "int (length (filter (acceptedDoc p) xs))"
  from fatal[of ?s0] assms(2,3) obtain s' where
    rb: "readBatch p base batchSize ?s0 = Inr (?n, Some e, s')"
    and bl: "length (batch s') = length (filter (acceptedDoc p) xs)"
    and ac: "Accepted (result s') = Accepted (result s)"
    by auto
  from unrecoverable_wrapError[OF assms(4)] have ne: "e \<noteq> EOF" by simp
  show "\<exists>out. handleLoop p PB base batchSize (reader s) (result s) q (heap s) = Some (Inr out) \<and>
            returned out = Some e \<and>
            Accepted (finalResult out) = Accepted (result s) + ?n"
  proof (cases "0 < ?n")
    case True
    from assms(6) obtain b' q' h' where
      pb: "PB q (batch s') (heap s') = (None, b', q', h')" and lb: "length b' = length (batch s')"
      unfolding reliableProcessor_def by blast
    from handleLoop_forward_ok[where PB=PB and q=q, OF rb True pb] ne lb bl ac
    show ?thesis by (simp add: AddAccepted_def)
  next
    case False
    from handleLoop_nothing[where PB=PB and q=q, OF rb False] ne False ac
    show ?thesis by simp
  qed
next
  fix s0 :: "('x, 'v) batchState" and doc err rd t input h1 evs de h2
  assume a: "ReadAhead (reader s0) = (doc, err, rd) \<and> (err = None \<or> err = Some EOF) \<and> doc \<noteq> [] \<and>
        identifyEventType doc = Inr t \<and> copyEvent (heap s0) base = (input, h1) \<and>
        decodeSwitch p (goString t) rd input h1 = (evs, Some de, h2) \<and> de \<noteq> EOF"
  then have
    "readBatchIter p base s0 =
     Next (s0\<lparr>reader := rd, batch := batch s0 @ evs, heap := h2,
              result := (case Some de of
                           None \<Rightarrow> result s0
                         | Some e \<Rightarrow>
                             if e \<noteq> EOF
                             then LimitedAdd (errorsLimit p)
                                    (InvalidInput \<lparr>TooLarge = False,
                                       Message = Error (errorText p) e,
                                       Document = doc\<rparr>) (result s0)
                             else result s0)\<rparr>)"
    by (intro readBatchIter_decode) auto
  with a show "readBatchIter p base s0 =
              Next (s0\<lparr>reader := rd, batch := batch s0 @ evs, heap := h2,
                        result := LimitedAdd (errorsLimit p)
                          (InvalidInput \<lparr>TooLarge = False,
                             Message = Error (errorText p) de,
                             Document = doc\<rparr>) (result s0)\<rparr>)"
    by simp
qed

lemma example_benign_transaction: "benignDoc exampleProcessor (transactionDocument, None)"
  using example_accepted by (simp add: benignDoc_def)

theorem read_error_propagation_witness:
  "(\<exists>s'. readBatch exampleProcessor exampleBase 10
            (exampleState [(transactionDocument, None),
                           (''{'', Some (ErrOther ''connection reset'')),
                           (spanDocument, None)]) =
            Inr (1, Some (ErrOther ''connection reset''), s') \<and>
          reader s' = \<lparr>pending = [(spanDocument, None)], isEOF = False, latestLine = ''{''\<rparr>) \<and>
   (\<exists>out. handleLoop exampleProcessor exampleProcessBatch exampleBase 10
            (getStreamReader [(transactionDocument, None),
                              (''{'', Some (ErrOther ''connection reset'')),
                              (spanDocument, None)]) emptyResult [] exampleStore =
            Some (Inr out) \<and>
          returned out = Some (ErrOther ''connection reset'') \<and>
          Accepted (finalResult out) = 1) \<and>
   readBatchIter exampleProcessor exampleBase (exampleState [(malformedDocument, None)]) =
     Next \<lparr>reader = \<lparr>pending = [], isEOF = False, latestLine = malformedDocument\<rparr>,
           batch = [],
           result = \<lparr>Accepted = 0,
                      Errors = [InvalidInput \<lparr>TooLarge = False, Message = ''decode error'',
                                  Document = malformedDocument\<rparr>]\<rparr>,
           heap = [Map.empty, Map.empty]\<rparr>"
proof -
  let ?r = "[(transactionDocument, None), (''{'', Some (ErrOther ''connection reset'')),
             (spanDocument, None)]"
  let ?s = "exampleState ?r"
  have 1: "\<forall>d\<in>set [(transactionDocument, None)]. benignDoc exampleProcessor d"
    using example_benign_transaction by simp
  have 2: "pending (reader ?s) = [(transactionDocument, None)] @
      (''{'', Some (ErrOther ''connection reset'')) # [(spanDocument, None)]"
    by (simp add: exampleState_def getStreamReader_def)
  have 3: "\<not> isEOF (reader ?s)" by (simp add: exampleState_def getStreamReader_def)
  have 4: "unrecoverable (ErrOther ''connection reset'')" by (simp add: unrecoverable_def)
  have 5: "int (length [(transactionDocument, None :: error option)]) < 10" by simp
  note th = read_error_propagation[OF 1 2 3 4 5 example_reliable,
      where base=exampleBase and q="[]"]
  have cnt: "length (filter (acceptedDoc exampleProcessor) [(transactionDocument, None)]) = 1"
    using example_accepted by simp
  from th cnt have a: "\<exists>s'. readBatch exampleProcessor exampleBase 10 ?s =
            Inr (1, Some (ErrOther ''connection reset''), s') \<and>
          reader s' = \<lparr>pending = [(spanDocument, None)], isEOF = False, latestLine = ''{''\<rparr>"
    by auto
  from th cnt have b: "\<exists>out. handleLoop exampleProcessor exampleProcessBatch exampleBase 10
            (getStreamReader ?r) emptyResult [] exampleStore = Some (Inr out) \<and>
          returned out = Some (ErrOther ''connection reset'') \<and>
          Accepted (finalResult out) = 1"
    by (auto simp: exampleState_def emptyResult_def)
  let ?m = "exampleState [(malformedDocument, None)]"
  let ?rd = "\<lparr>pending = [], isEOF = False, latestLine = malformedDocument\<rparr>"
  let ?input = "\<lparr>Labels = Some 1, NumericLabels = None, otherFields = []\<rparr> :: bytes APMEvent"
  have ra: "ReadAhead (reader ?m) = (malformedDocument, None, ?rd)"
    by (simp add: ReadAhead_def example_defs)
  have ne: "malformedDocument \<noteq> []" by (simp add: malformedDocument_def)
  have idt: "identifyEventType malformedDocument = Inr (Some ''span'')"
    by (simp add: identifyEventType_def sliceFrom_def sliceTo_def malformedDocument_def)
  have ce: "copyEvent (heap ?m) exampleBase = (?input, [Map.empty, Map.empty])"
    by (simp add: copyEvent_def Clone_def mapAt_def example_defs)
  have ds: "decodeSwitch exampleProcessor (goString (Some ''span'')) ?rd ?input
      [Map.empty, Map.empty] =
      ([], Some (DecoderError (JSONDecodeError ''data read error'')), [Map.empty, Map.empty])"
    by (simp add: decodeSwitch_def goString_def eventType_defs exampleProcessor_def
        exampleDecode_def exampleValid_def LatestLine_def malformedDocument_def)
  have de: "DecoderError (JSONDecodeError ''data read error'') \<noteq> EOF" by simp
  from th have "\<And>s0 doc err rd t input h1 evs de h2.
        ReadAhead (reader s0) = (doc, err, rd) \<Longrightarrow> err = None \<or> err = Some EOF \<Longrightarrow> doc \<noteq> [] \<Longrightarrow>
        identifyEventType doc = Inr t \<Longrightarrow> copyEvent (heap s0) exampleBase = (input, h1) \<Longrightarrow>
        decodeSwitch exampleProcessor (goString t) rd input h1 = (evs, Some de, h2) \<Longrightarrow> de \<noteq> EOF
        \<Longrightarrow> readBatchIter exampleProcessor exampleBase s0 =
              Next (s0\<lparr>reader := rd, batch := batch s0 @ evs, heap := h2,
                        result := LimitedAdd (errorsLimit exampleProcessor)
                          (InvalidInput \<lparr>TooLarge = False,
                             Message = Error (errorText exampleProcessor) de,
                             Document = doc\<rparr>) (result s0)\<rparr>)"
    by blast
  from this[OF ra _ ne idt ce ds de]
  have c: "readBatchIter exampleProcessor exampleBase ?m =
     Next \<lparr>reader = ?rd, batch = [],
           result = \<lparr>Accepted = 0,
                      Errors = [InvalidInput \<lparr>TooLarge = False, Message = ''decode error'',
                                  Document = malformedDocument\<rparr>]\<rparr>,
           heap = [Map.empty, Map.empty]\<rparr>"
    by (simp add: example_defs LimitedAdd_def)
  from a b c show ?thesis by blast
qed

section \<open>The return contract of the batch loop\<close>

text \<open>
  C4, as stated, fails on the code. The first read of the example below fails with
  an error of the byte source: the signal \<^verbatim>\<open>readBatch\<close> returns is that error, which
  is neither \<^verbatim>\<open>io.EOF\<close> nor nil, and the reader is not at the end of the stream.
\<close>

theorem readBatch_signal_counterexample:
  "readBatch exampleProcessor exampleBase 10
     (exampleState [(''{'', Some (ErrOther ''connection reset'')), (transactionDocument, None)]) =
     Inr (0, Some (ErrOther ''connection reset''),
          \<lparr>reader = \<lparr>pending = [(transactionDocument, None)], isEOF = False, latestLine = ''{''\<rparr>,
            batch = [], result = emptyResult, heap = exampleStore\<rparr>) \<and>
   \<not> IsEOF \<lparr>pending = [(transactionDocument, None)], isEOF = False, latestLine = ''{''\<rparr>"
  by (simp add: model_defs example_defs readBatchLoop.simps)

text \<open>
  C4, amended. \<^verbatim>\<open>readBatch\<close> never panics and returns the number of events appended
  during the pass (final batch length minus the length on entry) together with a
  signal: when the loop ran to its end, \<^verbatim>\<open>io.EOF\<close> when the reader is at the end of the
  stream and nil otherwise; when a read failed with an error that is no
  \<^verbatim>\<open>InvalidInputError\<close>, that error (it is not \<^verbatim>\<open>io.EOF\<close>, and the reader is then not at
  the end of the stream). \<^verbatim>\<open>HandleStream\<close> forwards the appended events (a positive
  count) before it looks at the signal: a failure of \<^verbatim>\<open>ProcessBatch\<close> is returned
  whatever the signal is; otherwise on \<^verbatim>\<open>io.EOF\<close> it returns nil, on another error it
  returns that error, and on nil it goes round the loop again.
\<close>

theorem readBatch_contract:
  fixes p :: "('x, 'v) Processor" and PB :: "('x, 'v, 'q) batchProcessor"
  shows
  "(case readBatchLoop p base batchSize 0 s of
      Next s' \<Rightarrow>
        readBatch p base batchSize s =
          Inr (int (length (batch s')) - int (length (batch s)),
               (if IsEOF (reader s') then Some EOF else None), s')
    | Return err s' \<Rightarrow>
        (\<exists>e. err = Some e \<and> e \<noteq> EOF \<and> asInvalidInput e = None) \<and> \<not> IsEOF (reader s') \<and>
        readBatch p base batchSize s =
          Inr (int (length (batch s')) - int (length (batch s)), err, s')
    | Panicked pn \<Rightarrow> False) \<and>
   (\<forall>sr res q h n sig s1.
      readBatch p base batchSize \<lparr>reader = sr, batch = [], result = res, heap = h\<rparr>
        = Inr (n, sig, s1) \<longrightarrow>
      (\<forall>err b' q' h'. 0 < n \<and> PB q (batch s1) (heap s1) = (Some err, b', q', h') \<longrightarrow>
         handleLoop p PB base batchSize sr res q h =
           Some (Inr \<lparr>returned = Some err, finalResult = result s1, downstream = q',
                      finalHeap = h'\<rparr>)) \<and>
      (\<forall>b' q' h'. 0 < n \<and> PB q (batch s1) (heap s1) = (None, b', q', h') \<longrightarrow>
         (sig = Some EOF \<longrightarrow>
            handleLoop p PB base batchSize sr res q h =
              Some (Inr \<lparr>returned = None,
                         finalResult = AddAccepted (int (length b')) (result s1),
                         downstream = q', finalHeap = h'\<rparr>)) \<and>
         (\<forall>e. sig = Some e \<and> e \<noteq> EOF \<longrightarrow>
            handleLoop p PB base batchSize sr res q h =
              Some (Inr \<lparr>returned = Some e,
                         finalResult = AddAccepted (int (length b')) (result s1),
                         downstream = q', finalHeap = h'\<rparr>)) \<and>
         (sig = None \<longrightarrow>
            handleLoop p PB base batchSize sr res q h =
              handleLoop p PB base batchSize (reader s1)
                (AddAccepted (int (length b')) (result s1)) q' h')) \<and>
      (\<not> 0 < n \<longrightarrow>
         (sig = Some EOF \<longrightarrow>
            handleLoop p PB base batchSize sr res q h =
              Some (Inr \<lparr>returned = None, finalResult = result s1, downstream = q,
                         finalHeap = heap s1\<rparr>)) \<and>
         (\<forall>e. sig = Some e \<and> e \<noteq> EOF \<longrightarrow>
            handleLoop p PB base batchSize sr res q h =
              Some (Inr \<lparr>returned = Some e, finalResult = result s1, downstream = q,
                         finalHeap = heap s1\<rparr>)) \<and>
         (sig = None \<longrightarrow>
            handleLoop p PB base batchSize sr res q h =
              handleLoop p PB base batchSize (reader s1) (result s1) q (heap s1))))"
proof (rule conjI)
  show "case readBatchLoop p base batchSize 0 s of
      Next s' \<Rightarrow>
        readBatch p base batchSize s =
          Inr (int (length (batch s')) - int (length (batch s)),
               (if IsEOF (reader s') then Some EOF else None), s')
    | Return err s' \<Rightarrow>
        (\<exists>e. err = Some e \<and> e \<noteq> EOF \<and> asInvalidInput e = None) \<and> \<not> IsEOF (reader s') \<and>
        readBatch p base batchSize s =
          Inr (int (length (batch s')) - int (length (batch s)), err, s')
    | Panicked pn \<Rightarrow> False"
    using readBatchLoop_general[where p=p and base=base and batchSize=batchSize and i=0 and s=s]
    by (auto simp: readBatch_def IsEOF_def split: flow.splits)
next
  show "\<forall>sr res q h n sig s1.
      readBatch p base batchSize \<lparr>reader = sr, batch = [], result = res, heap = h\<rparr>
        = Inr (n, sig, s1) \<longrightarrow>
      (\<forall>err b' q' h'. 0 < n \<and> PB q (batch s1) (heap s1) = (Some err, b', q', h') \<longrightarrow>
         handleLoop p PB base batchSize sr res q h =
           Some (Inr \<lparr>returned = Some err, finalResult = result s1, downstream = q',
                      finalHeap = h'\<rparr>)) \<and>
      (\<forall>b' q' h'. 0 < n \<and> PB q (batch s1) (heap s1) = (None, b', q', h') \<longrightarrow>
         (sig = Some EOF \<longrightarrow>
            handleLoop p PB base batchSize sr res q h =
              Some (Inr \<lparr>returned = None,
                         finalResult = AddAccepted (int (length b')) (result s1),
                         downstream = q', finalHeap = h'\<rparr>)) \<and>
         (\<forall>e. sig = Some e \<and> e \<noteq> EOF \<longrightarrow>
            handleLoop p PB base batchSize sr res q h =
              Some (Inr \<lparr>returned = Some e,
                         finalResult = AddAccepted (int (length b')) (result s1),
                         downstream = q', finalHeap = h'\<rparr>)) \<and>
         (sig = None \<longrightarrow>
            handleLoop p PB base batchSize sr res q h =
              handleLoop p PB base batchSize (reader s1)
                (AddAccepted (int (length b')) (result s1)) q' h')) \<and>
      (\<not> 0 < n \<longrightarrow>
         (sig = Some EOF \<longrightarrow>
            handleLoop p PB base batchSize sr res q h =
              Some (Inr \<lparr>returned = None, finalResult = result s1, downstream = q,
                         finalHeap = heap s1\<rparr>)) \<and>
         (\<forall>e. sig = Some e \<and> e \<noteq> EOF \<longrightarrow>
            handleLoop p PB base batchSize sr res q h =
              Some (Inr \<lparr>returned = Some e, finalResult = result s1, downstream = q,
                         finalHeap = heap s1\<rparr>)) \<and>
         (sig = None \<longrightarrow>
            handleLoop p PB base batchSize sr res q h =
              handleLoop p PB base batchSize (reader s1) (result s1) q (heap s1)))"
  proof (intro allI impI conjI)
    fix sr res q h n sig s1 err b' q' h'
    assume rb: "readBatch p base batchSize \<lparr>reader = sr, batch = [], result = res, heap = h\<rparr>
        = Inr (n, sig, s1)"
      and a: "0 < n \<and> PB q (batch s1) (heap s1) = (Some err, b', q', h')"
    from handleLoop_forward_fail[where PB=PB and q=q, OF rb] a
    show "handleLoop p PB base batchSize sr res q h =
           Some (Inr \<lparr>returned = Some err, finalResult = result s1, downstream = q',
                      finalHeap = h'\<rparr>)" by blast
  next
    fix sr res q h n sig s1 b' q' h'
    assume rb: "readBatch p base batchSize \<lparr>reader = sr, batch = [], result = res, heap = h\<rparr>
        = Inr (n, sig, s1)"
      and a: "0 < n \<and> PB q (batch s1) (heap s1) = (None, b', q', h')"
    from a have n: "0 < n" and pb: "PB q (batch s1) (heap s1) = (None, b', q', h')" by auto
    note ok = handleLoop_forward_ok[where PB=PB and q=q, OF rb n pb]
    { assume "sig = Some EOF"
      with ok show "handleLoop p PB base batchSize sr res q h =
              Some (Inr \<lparr>returned = None,
                         finalResult = AddAccepted (int (length b')) (result s1),
                         downstream = q', finalHeap = h'\<rparr>)" by simp }
    { fix e assume "sig = Some e \<and> e \<noteq> EOF"
      with ok show "handleLoop p PB base batchSize sr res q h =
              Some (Inr \<lparr>returned = Some e,
                         finalResult = AddAccepted (int (length b')) (result s1),
                         downstream = q', finalHeap = h'\<rparr>)" by simp }
    { assume "sig = None"
      with ok show "handleLoop p PB base batchSize sr res q h =
              handleLoop p PB base batchSize (reader s1)
                (AddAccepted (int (length b')) (result s1)) q' h'" by simp }
  next
    fix sr res q h n sig s1
    assume rb: "readBatch p base batchSize \<lparr>reader = sr, batch = [], result = res, heap = h\<rparr>
        = Inr (n, sig, s1)"
      and n: "\<not> 0 < n"
    note no = handleLoop_nothing[where PB=PB and q=q, OF rb n]
    { assume "sig = Some EOF"
      with no show "handleLoop p PB base batchSize sr res q h =
              Some (Inr \<lparr>returned = None, finalResult = result s1, downstream = q,
                         finalHeap = heap s1\<rparr>)" by simp }
    { fix e assume "sig = Some e \<and> e \<noteq> EOF"
      with no show "handleLoop p PB base batchSize sr res q h =
              Some (Inr \<lparr>returned = Some e, finalResult = result s1, downstream = q,
                         finalHeap = heap s1\<rparr>)" by simp }
    { assume "sig = None"
      with no show "handleLoop p PB base batchSize sr res q h =
              handleLoop p PB base batchSize (reader s1) (result s1) q (heap s1)" by simp }
  qed
qed

theorem readBatch_contract_witness:
  "readBatch exampleProcessor exampleBase 10 (exampleState [(transactionDocument, None)]) =
     Inr (1, Some EOF,
          \<lparr>reader = \<lparr>pending = [], isEOF = True, latestLine = []\<rparr>,
            batch = [exampleEvent 1 transactionDocument], result = emptyResult,
            heap = [Map.empty, [''doc'' \<mapsto> transactionDocument]]\<rparr>) \<and>
   handleLoop exampleProcessor exampleProcessBatch exampleBase 10
     (getStreamReader [(transactionDocument, None)]) emptyResult [] exampleStore =
     Some (Inr \<lparr>returned = None, finalResult = \<lparr>Accepted = 1, Errors = []\<rparr>,
                downstream = [[exampleEvent 1 transactionDocument]],
                finalHeap = [Map.empty, [''doc'' \<mapsto> transactionDocument]]\<rparr>)"
proof -
  let ?s = "exampleState [(transactionDocument, None)]"
  let ?s' = "\<lparr>reader = \<lparr>pending = [], isEOF = True, latestLine = []\<rparr>,
            batch = [exampleEvent 1 transactionDocument], result = emptyResult,
            heap = [Map.empty, [''doc'' \<mapsto> transactionDocument]]\<rparr>"
  note th = readBatch_contract[where p=exampleProcessor and base=exampleBase and batchSize=10
      and s="?s" and PB=exampleProcessBatch]
  have l: "readBatchLoop exampleProcessor exampleBase 10 0 ?s = Next ?s'"
    by (simp add: model_defs example_defs eventType_defs document_defs readBatchLoop.simps
        exampleEvent_def)
  from th l have "readBatch exampleProcessor exampleBase 10 ?s =
      Inr (int (length (batch ?s')) - int (length (batch ?s)),
           (if IsEOF (reader ?s') then Some EOF else None), ?s')"
    by simp
  then have rb: "readBatch exampleProcessor exampleBase 10 ?s = Inr (1, Some EOF, ?s')"
    by (simp add: IsEOF_def exampleState_def)
  then have rb': "readBatch exampleProcessor exampleBase 10
      \<lparr>reader = getStreamReader [(transactionDocument, None)], batch = [],
        result = emptyResult, heap = exampleStore\<rparr> = Inr (1, Some EOF, ?s')"
    by (simp add: exampleState_def)
  have pb: "exampleProcessBatch [] (batch ?s') (heap ?s') =
      (None, [exampleEvent 1 transactionDocument], [[exampleEvent 1 transactionDocument]],
       [Map.empty, [''doc'' \<mapsto> transactionDocument]])"
    by (simp add: exampleProcessBatch_def)
  have n: "(0::int) < 1" by simp
  from th rb' n pb
  have "handleLoop exampleProcessor exampleProcessBatch exampleBase 10
     (getStreamReader [(transactionDocument, None)]) emptyResult [] exampleStore =
     Some (Inr \<lparr>returned = None,
                finalResult = AddAccepted (int (length [exampleEvent 1 transactionDocument]))
                  (result ?s'),
                downstream = [[exampleEvent 1 transactionDocument]],
                finalHeap = [Map.empty, [''doc'' \<mapsto> transactionDocument]]\<rparr>)"
    by blast
  with rb show ?thesis by (simp add: AddAccepted_def emptyResult_def)
qed

section \<open>Label maps are cloned for every document\<close>

lemma mapAt_append: "a < length h \<Longrightarrow> mapAt (h @ g) a = mapAt h a"
  by (simp add: mapAt_def nth_append)

lemma mapAt_new: "mapAt (h @ [m]) (length h) = m"
  by (simp add: mapAt_def)

lemma copyEvent_cases:
  "Labels e = None \<Longrightarrow> NumericLabels e = None \<Longrightarrow> copyEvent h e = (e, h)"
  "Labels e = Some a \<Longrightarrow> NumericLabels e = None \<Longrightarrow>
     copyEvent h e = (e\<lparr>Labels := Some (length h)\<rparr>, h @ [mapAt h a])"
  "Labels e = None \<Longrightarrow> NumericLabels e = Some b \<Longrightarrow>
     copyEvent h e = (e\<lparr>NumericLabels := Some (length h)\<rparr>, h @ [mapAt h b])"
  "Labels e = Some a \<Longrightarrow> NumericLabels e = Some b \<Longrightarrow>
     copyEvent h e =
       (e\<lparr>Labels := Some (length h), NumericLabels := Some (Suc (length h))\<rparr>,
        h @ [mapAt h a, mapAt (h @ [mapAt h a]) b])"
  by (simp_all add: copyEvent_def Clone_def)

lemma copyEvent_facts:
  assumes "copyEvent h e = (out, h')"
  shows "otherFields out = otherFields e \<and>
         (Labels e = None \<longrightarrow> Labels out = None) \<and>
         (NumericLabels e = None \<longrightarrow> NumericLabels out = None) \<and>
         (\<forall>a. Labels e = Some a \<and> a < length h \<longrightarrow>
            (\<exists>a'. Labels out = Some a' \<and> length h \<le> a' \<and> a' < length h' \<and>
                  mapAt h' a' = mapAt h a)) \<and>
         (\<forall>b. NumericLabels e = Some b \<and> b < length h \<longrightarrow>
            (\<exists>b'. NumericLabels out = Some b' \<and> length h \<le> b' \<and> b' < length h' \<and>
                  mapAt h' b' = mapAt h b)) \<and>
         (Labels out = None \<or> Labels out \<noteq> NumericLabels out) \<and>
         take (length h) h' = h \<and>
         (\<forall>c. Labels out = Some c \<or> NumericLabels out = Some c \<longrightarrow> length h \<le> c)"
proof (cases "Labels e")
  case None
  note l = None
  show ?thesis
  proof (cases "NumericLabels e")
    case None
    from copyEvent_cases(1)[OF l None, of h] assms have "out = e" "h' = h" by simp_all
    with l None show ?thesis by simp
  next
    case (Some b)
    from copyEvent_cases(3)[OF l Some, of h] assms
    have "out = e\<lparr>NumericLabels := Some (length h)\<rparr>" "h' = h @ [mapAt h b]" by simp_all
    with l Some show ?thesis by (simp add: mapAt_new)
  qed
next
  case (Some a)
  note l = Some
  show ?thesis
  proof (cases "NumericLabels e")
    case None
    from copyEvent_cases(2)[OF l None, of h] assms
    have "out = e\<lparr>Labels := Some (length h)\<rparr>" "h' = h @ [mapAt h a]" by simp_all
    with l None show ?thesis by (simp add: mapAt_new)
  next
    case (Some b)
    from copyEvent_cases(4)[OF l Some, of h] assms
    have o: "out = e\<lparr>Labels := Some (length h), NumericLabels := Some (Suc (length h))\<rparr>"
      and h': "h' = h @ [mapAt h a, mapAt (h @ [mapAt h a]) b]" by simp_all
    have 1: "mapAt h' (length h) = mapAt h a" unfolding h' by (simp add: mapAt_def)
    have 2: "b < length h \<Longrightarrow> mapAt h' (Suc (length h)) = mapAt h b"
      unfolding h' by (simp add: mapAt_def nth_append)
    from o h' l Some 1 2 show ?thesis by simp
  qed
qed

lemma copyEvent_old: "copyEvent h e = (out, h') \<Longrightarrow> a < length h \<Longrightarrow> mapAt h' a = mapAt h a"
  by (cases "Labels e"; cases "NumericLabels e") (auto simp: copyEvent_cases mapAt_append)

lemma copyEvent_length: "copyEvent h e = (out, h') \<Longrightarrow> length h \<le> length h'"
  by (auto simp: copyEvent_def Clone_def split: option.splits)

lemma framed_decodeSwitch: "framedDecoders p \<Longrightarrow> framedDecoder (decodeSwitch p k)"
  unfolding framedDecoders_def framedDecoder_def decodeSwitch_def
  by (auto split: if_splits)

lemma readBatchIter_frame:
  assumes "framedDecoders p" "readBatchIter p base s = Next s1"
  shows "length (heap s) \<le> length (heap s1) \<and>
         (\<forall>a<length (heap s). mapAt (heap s1) a = mapAt (heap s) a)"
proof -
  obtain body err rd where ra: "ReadAhead (reader s) = (body, err, rd)"
    by (cases "ReadAhead (reader s)")
  obtain t where t: "identifyEventType body = Inr t"
    using identifyEventType_returns by blast
  obtain input h1 where ce: "copyEvent (heap s) base = (input, h1)"
    by (cases "copyEvent (heap s) base")
  obtain evs derr h2 where ds: "decodeSwitch p (goString t) rd input h1 = (evs, derr, h2)"
    by (cases "decodeSwitch p (goString t) rd input h1")
  have fresh: "\<forall>c. Labels input = Some c \<or> NumericLabels input = Some c \<longrightarrow> length (heap s) \<le> c"
    using copyEvent_facts[OF ce] by blast
  from framed_decodeSwitch[OF assms(1), of "goString t"] ds
  have f: "length h1 \<le> length h2"
    "\<forall>a<length h1. Some a \<noteq> Labels input \<and> Some a \<noteq> NumericLabels input \<longrightarrow>
        mapAt h2 a = mapAt h1 a"
    unfolding framedDecoder_def by blast+
  have h2: "length (heap s) \<le> length h2 \<and> (\<forall>a<length (heap s). mapAt h2 a = mapAt (heap s) a)"
  proof (intro conjI allI impI)
    show "length (heap s) \<le> length h2" using copyEvent_length[OF ce] f(1) by simp
  next
    fix a assume a: "a < length (heap s)"
    then have "a < length h1" using copyEvent_length[OF ce] by simp
    moreover have "Some a \<noteq> Labels input \<and> Some a \<noteq> NumericLabels input"
      using fresh a by (metis not_less)
    ultimately have "mapAt h2 a = mapAt h1 a" using f(2) by blast
    with copyEvent_old[OF ce a] show "mapAt h2 a = mapAt (heap s) a" by simp
  qed
  have "heap s1 = heap s \<or> heap s1 = h2"
  proof (cases "err \<noteq> None \<and> err \<noteq> Some EOF")
    case True
    then obtain e where e: "err = Some e" "e \<noteq> EOF" by auto
    obtain e' where w: "wrapError (errorText p) rd (Some e) = Some e'"
      using wrapError_Some by blast
    show ?thesis
    proof (cases "asInvalidInput e' = None")
      case True
      from readBatchIter_read_fatal[OF ra[unfolded e(1)] e(2) w True, of base] assms(2)
      show ?thesis by simp
    next
      case False
      from readBatchIter_read_recorded[OF ra[unfolded e(1)] e(2) w False, of base] assms(2)
      show ?thesis by auto
    qed
  next
    case False
    then have er: "err = None \<or> err = Some EOF" by auto
    show ?thesis
    proof (cases "body = []")
      case True
      from readBatchIter_blank[OF ra[unfolded True] er, of p base] assms(2)
      show ?thesis by auto
    next
      case False
      from readBatchIter_decode[OF ra er False t ce ds] assms(2)
      show ?thesis by auto
    qed
  qed
  with h2 show ?thesis by auto
qed

lemma readBatchLoop_frame:
  assumes "framedDecoders p"
  shows "(case readBatchLoop p base batchSize i s of
            Next s' \<Rightarrow> length (heap s) \<le> length (heap s') \<and>
                       (\<forall>a<length (heap s). mapAt (heap s') a = mapAt (heap s) a)
          | Return err s' \<Rightarrow> length (heap s) \<le> length (heap s') \<and>
                       (\<forall>a<length (heap s). mapAt (heap s') a = mapAt (heap s) a)
          | Panicked pn \<Rightarrow> True)"
  using assms
proof (induction p base batchSize i s rule: readBatchLoop.induct)
  case (1 p base batchSize i s)
  show ?case
  proof (cases "i < batchSize \<and> \<not> IsEOF (reader s)")
    case False
    then show ?thesis by (subst readBatchLoop.simps) auto
  next
    case True
    show ?thesis
    proof (cases "readBatchIter p base s")
      case (Next s1)
      have eq: "readBatchLoop p base batchSize i s = readBatchLoop p base batchSize (i + 1) s1"
        using True Next by (subst readBatchLoop.simps) simp
      from readBatchIter_frame[OF "1.prems" Next] "1.IH"[OF True Next "1.prems"]
      show ?thesis unfolding eq by (auto split: flow.splits)
    next
      case (Return err s1)
      have eq: "readBatchLoop p base batchSize i s = Return err s1"
        using True Return by (subst readBatchLoop.simps) simp
      from readBatchIter_Return[OF Return] obtain rd where "s1 = s\<lparr>reader := rd\<rparr>"
        by metis
      then have "heap s1 = heap s" by simp
      then show ?thesis unfolding eq by simp
    next
      case (Panicked pn)
      have eq: "readBatchLoop p base batchSize i s = Panicked pn"
        using True Panicked by (subst readBatchLoop.simps) simp
      show ?thesis unfolding eq by simp
    qed
  qed
qed

lemma readBatch_frame:
  assumes "framedDecoders p" "readBatch p base batchSize s = Inr (n, sig, s')"
  shows "length (heap s) \<le> length (heap s') \<and>
         (\<forall>a<length (heap s). mapAt (heap s') a = mapAt (heap s) a)"
  using readBatchLoop_frame[OF assms(1), where base=base and batchSize=batchSize and i=0 and s=s] assms(2)
  by (auto simp: readBatch_def Let_def split: flow.splits if_splits)

lemma example_framed: "framedDecoders exampleProcessor"
proof -
  have "framedDecoder exampleDecode"
    unfolding framedDecoder_def exampleDecode_def
    by (auto simp: mapAt_def split: if_splits option.splits)
  then show ?thesis by (simp add: framedDecoders_def exampleProcessor_def)
qed

text \<open>
  C8. \<^verbatim>\<open>copyEvent\<close> returns an event whose other fields are those of its input; a
  nil label map stays nil; a label map of the input is replaced by a map at a fresh
  address (one that is not in the store before the call) holding the same entries,
  the two clones being at different addresses, and the store as it was is left
  untouched. Every iteration of the batch loop that decodes a document calls the
  decoder on \<^verbatim>\<open>copyEvent(baseEvent)\<close>. Hence, for decoders that keep to their frame, an
  iteration, and so a whole pass of \<^verbatim>\<open>readBatch\<close>, changes no map that was in the
  store before it: neither the label maps of \<^verbatim>\<open>baseEvent\<close> nor those of the events
  decoded before, so the next document is again decoded from the labels of
  \<^verbatim>\<open>baseEvent\<close> as they were.
\<close>

theorem label_isolation:
  fixes p :: "('x, 'v) Processor"
  assumes "framedDecoders p"
  shows
   "(\<forall>(h :: 'v store) (e :: 'x APMEvent) out h'. copyEvent h e = (out, h') \<longrightarrow>
       otherFields out = otherFields e \<and>
       (Labels e = None \<longrightarrow> Labels out = None) \<and>
       (NumericLabels e = None \<longrightarrow> NumericLabels out = None) \<and>
       (\<forall>a. Labels e = Some a \<and> a < length h \<longrightarrow>
          (\<exists>a'. Labels out = Some a' \<and> length h \<le> a' \<and> a' < length h' \<and>
                mapAt h' a' = mapAt h a)) \<and>
       (\<forall>b. NumericLabels e = Some b \<and> b < length h \<longrightarrow>
          (\<exists>b'. NumericLabels out = Some b' \<and> length h \<le> b' \<and> b' < length h' \<and>
                mapAt h' b' = mapAt h b)) \<and>
       (Labels out = None \<or> Labels out \<noteq> NumericLabels out) \<and>
       take (length h) h' = h) \<and>
    (\<forall>s body err rd t.
       ReadAhead (reader s) = (body, err, rd) \<and> (err = None \<or> err = Some EOF) \<and> body \<noteq> [] \<and>
       identifyEventType body = Inr t \<longrightarrow>
       (\<exists>res'. readBatchIter p baseEvent s =
          Next (s\<lparr>reader := rd,
                   batch := batch s @
                     fst (decodeSwitch p (goString t) rd (fst (copyEvent (heap s) baseEvent))
                            (snd (copyEvent (heap s) baseEvent))),
                   heap :=
                     snd (snd (decodeSwitch p (goString t) rd
                                 (fst (copyEvent (heap s) baseEvent))
                                 (snd (copyEvent (heap s) baseEvent)))),
                   result := res'\<rparr>))) \<and>
    (\<forall>s s1. readBatchIter p baseEvent s = Next s1 \<longrightarrow>
       length (heap s) \<le> length (heap s1) \<and>
       (\<forall>a<length (heap s). mapAt (heap s1) a = mapAt (heap s) a)) \<and>
    (\<forall>s n sig s'. readBatch p baseEvent batchSize s = Inr (n, sig, s') \<longrightarrow>
       length (heap s) \<le> length (heap s') \<and>
       (\<forall>a<length (heap s). mapAt (heap s') a = mapAt (heap s) a))"
proof (intro conjI)
  show "\<forall>(h :: 'v store) (e :: 'x APMEvent) out h'. copyEvent h e = (out, h') \<longrightarrow>
       otherFields out = otherFields e \<and>
       (Labels e = None \<longrightarrow> Labels out = None) \<and>
       (NumericLabels e = None \<longrightarrow> NumericLabels out = None) \<and>
       (\<forall>a. Labels e = Some a \<and> a < length h \<longrightarrow>
          (\<exists>a'. Labels out = Some a' \<and> length h \<le> a' \<and> a' < length h' \<and>
                mapAt h' a' = mapAt h a)) \<and>
       (\<forall>b. NumericLabels e = Some b \<and> b < length h \<longrightarrow>
          (\<exists>b'. NumericLabels out = Some b' \<and> length h \<le> b' \<and> b' < length h' \<and>
                mapAt h' b' = mapAt h b)) \<and>
       (Labels out = None \<or> Labels out \<noteq> NumericLabels out) \<and>
       take (length h) h' = h"
  proof (intro allI impI)
    fix h :: "'v store" and e :: "'x APMEvent" and out h'
    assume "copyEvent h e = (out, h')"
    from copyEvent_facts[OF this]
    show "otherFields out = otherFields e \<and>
       (Labels e = None \<longrightarrow> Labels out = None) \<and>
       (NumericLabels e = None \<longrightarrow> NumericLabels out = None) \<and>
       (\<forall>a. Labels e = Some a \<and> a < length h \<longrightarrow>
          (\<exists>a'. Labels out = Some a' \<and> length h \<le> a' \<and> a' < length h' \<and>
                mapAt h' a' = mapAt h a)) \<and>
       (\<forall>b. NumericLabels e = Some b \<and> b < length h \<longrightarrow>
          (\<exists>b'. NumericLabels out = Some b' \<and> length h \<le> b' \<and> b' < length h' \<and>
                mapAt h' b' = mapAt h b)) \<and>
       (Labels out = None \<or> Labels out \<noteq> NumericLabels out) \<and>
       take (length h) h' = h"
      by blast
  qed
next
  show "\<forall>s body err rd t.
       ReadAhead (reader s) = (body, err, rd) \<and> (err = None \<or> err = Some EOF) \<and> body \<noteq> [] \<and>
       identifyEventType body = Inr t \<longrightarrow>
       (\<exists>res'. readBatchIter p baseEvent s =
          Next (s\<lparr>reader := rd,
                   batch := batch s @
                     fst (decodeSwitch p (goString t) rd (fst (copyEvent (heap s) baseEvent))
                            (snd (copyEvent (heap s) baseEvent))),
                   heap :=
                     snd (snd (decodeSwitch p (goString t) rd
                                 (fst (copyEvent (heap s) baseEvent))
                                 (snd (copyEvent (heap s) baseEvent)))),
                   result := res'\<rparr>))"
  proof (intro allI impI)
    fix s :: "('x, 'v) batchState" and body err rd t
    assume a: "ReadAhead (reader s) = (body, err, rd) \<and> (err = None \<or> err = Some EOF) \<and>
       body \<noteq> [] \<and> identifyEventType body = Inr t"
    obtain input h1 where ce: "copyEvent (heap s) baseEvent = (input, h1)"
      by (cases "copyEvent (heap s) baseEvent")
    obtain evs derr h2 where ds: "decodeSwitch p (goString t) rd input h1 = (evs, derr, h2)"
      by (cases "decodeSwitch p (goString t) rd input h1")
    from a have ra: "ReadAhead (reader s) = (body, err, rd)" and er: "err = None \<or> err = Some EOF"
      and ne: "body \<noteq> []" and t: "identifyEventType body = Inr t" by auto
    from readBatchIter_decode[OF ra er ne t ce ds]
    show "\<exists>res'. readBatchIter p baseEvent s =
          Next (s\<lparr>reader := rd,
                   batch := batch s @
                     fst (decodeSwitch p (goString t) rd (fst (copyEvent (heap s) baseEvent))
                            (snd (copyEvent (heap s) baseEvent))),
                   heap :=
                     snd (snd (decodeSwitch p (goString t) rd
                                 (fst (copyEvent (heap s) baseEvent))
                                 (snd (copyEvent (heap s) baseEvent)))),
                   result := res'\<rparr>)"
      by (simp add: ce ds) blast
  qed
next
  show "\<forall>s s1. readBatchIter p baseEvent s = Next s1 \<longrightarrow>
       length (heap s) \<le> length (heap s1) \<and>
       (\<forall>a<length (heap s). mapAt (heap s1) a = mapAt (heap s) a)"
    using readBatchIter_frame[OF assms] by blast
next
  show "\<forall>s n sig s'. readBatch p baseEvent batchSize s = Inr (n, sig, s') \<longrightarrow>
       length (heap s) \<le> length (heap s') \<and>
       (\<forall>a<length (heap s). mapAt (heap s') a = mapAt (heap s) a)"
    using readBatch_frame[OF assms] by blast
qed

theorem label_isolation_witness:
  "copyEvent exampleStore exampleBase =
     (\<lparr>Labels = Some 1, NumericLabels = None, otherFields = []\<rparr>, [Map.empty, Map.empty]) \<and>
   readBatch exampleProcessor exampleBase 10
     (exampleState [(transactionDocument, None), (spanDocument, None)]) =
     Inr (2, Some EOF,
          \<lparr>reader = \<lparr>pending = [], isEOF = True, latestLine = []\<rparr>,
            batch = [exampleEvent 1 transactionDocument, exampleEvent 2 spanDocument],
            result = emptyResult,
            heap = [Map.empty, [''doc'' \<mapsto> transactionDocument],
                    [''doc'' \<mapsto> spanDocument]]\<rparr>) \<and>
   mapAt [Map.empty, [''doc'' \<mapsto> transactionDocument], [''doc'' \<mapsto> spanDocument]] 0 =
     mapAt exampleStore 0"
proof -
  let ?s = "exampleState [(transactionDocument, None), (spanDocument, None)]"
  let ?h' = "[Map.empty, [''doc'' \<mapsto> transactionDocument], [''doc'' \<mapsto> spanDocument]]
    :: bytes store"
  let ?s' = "\<lparr>reader = \<lparr>pending = [], isEOF = True, latestLine = []\<rparr>,
            batch = [exampleEvent 1 transactionDocument, exampleEvent 2 spanDocument],
            result = emptyResult, heap = ?h'\<rparr>"
  have ce: "copyEvent exampleStore exampleBase =
     (\<lparr>Labels = Some 1, NumericLabels = None, otherFields = []\<rparr>, [Map.empty, Map.empty])"
    by (simp add: copyEvent_def Clone_def mapAt_def example_defs)
  have rb: "readBatch exampleProcessor exampleBase 10 ?s = Inr (2, Some EOF, ?s')"
    by (simp add: model_defs example_defs eventType_defs document_defs readBatchLoop.simps
        exampleEvent_def)
  note th = label_isolation[OF example_framed, where baseEvent=exampleBase and batchSize=10]
  from th rb have "\<forall>a<length (heap ?s). mapAt (heap ?s') a = mapAt (heap ?s) a"
    by blast
  then have "mapAt (heap ?s') 0 = mapAt (heap ?s) 0"
    by (simp add: exampleState_def exampleStore_def)
  then have "mapAt ?h' 0 = mapAt exampleStore 0"
    by (simp add: exampleState_def)
  with ce rb show ?thesis by blast
qed

section \<open>A batch size that is not positive\<close>

text \<open>
  With a batch size of zero or less the loop of \<^verbatim>\<open>readBatch\<close> does not run: it returns
  the count 0 and a nil error and reads nothing. So, unless the reader is already at
  the end of the stream, the loop of \<^verbatim>\<open>HandleStream\<close> never ends; this is why the
  statements above that say \<^verbatim>\<open>HandleStream\<close> returns ask for a positive batch size.
\<close>

lemma readBatch_zero:
  assumes "batchSize \<le> 0" "\<not> isEOF (reader s)"
  shows "readBatch p base batchSize s = Inr (0, None, s)"
  using assms by (simp add: readBatch_def readBatchLoop.simps IsEOF_def)

lemma handleLoop_diverges:
  fixes p :: "('x, 'v) Processor" and PB :: "('x, 'v, 'q) batchProcessor"
  assumes "batchSize \<le> 0" "\<not> isEOF sr"
  shows "handleLoop p PB base batchSize sr res q h = None"
proof -
  have "\<forall>p PB base batchSize sr res q h. batchSize \<le> 0 \<and> \<not> isEOF sr \<longrightarrow>
      handleLoop (p :: ('x, 'v) Processor) (PB :: ('x, 'v, 'q) batchProcessor)
        base batchSize sr res q h = None"
  proof (induction rule: handleLoop.fixp_induct)
    case 1
    show ?case
      apply (rule ccpo.admissibleI)
      apply (clarsimp simp: fun_lub_def flat_lub_def curry_def)
      done
  next
    case 2
    show ?case by simp
  next
    case (3 f)
    show ?case
    proof (intro allI impI)
      fix p :: "('x, 'v) Processor" and PB :: "('x, 'v, 'q) batchProcessor"
        and base :: "'x APMEvent" and batchSize :: int and sr :: streamReader
        and res :: Result and q :: 'q and h :: "'v store"
      assume a: "batchSize \<le> 0 \<and> \<not> isEOF sr"
      then have rb: "readBatch p base batchSize \<lparr>reader = sr, batch = [], result = res, heap = h\<rparr>
          = Inr (0, None, \<lparr>reader = sr, batch = [], result = res, heap = h\<rparr>)"
        by (intro readBatch_zero) auto
      from 3 a show "(case readBatch p base batchSize \<lparr>reader = sr, batch = [], result = res, heap = h\<rparr> of
        Inl pn \<Rightarrow> Some (Inl pn)
      | Inr (n, readErr, s) \<Rightarrow>
          (case (if n > 0 then
                   (case PB q (batch s) (heap s) of
                      (Some err, b', q', h') \<Rightarrow>
                        Inl \<lparr>returned = Some err, finalResult = result s,
                             downstream = q', finalHeap = h'\<rparr>
                    | (None, b', q', h') \<Rightarrow>
                        Inr (AddAccepted (int (length b')) (result s), q', h'))
                 else Inr (result s, q, heap s))
           of
             Inl out \<Rightarrow> Some (Inr out)
           | Inr (res', q', h') \<Rightarrow>
               if readErr = Some EOF then
                 Some (Inr \<lparr>returned = None, finalResult = res',
                            downstream = q', finalHeap = h'\<rparr>)
               else if readErr \<noteq> None then
                 Some (Inr \<lparr>returned = readErr, finalResult = res',
                            downstream = q', finalHeap = h'\<rparr>)
               else f p PB base batchSize (reader s) res' q' h')) = None"
        by (simp add: rb)
    qed
  qed
  with assms show ?thesis by blast
qed

end
